theory Spec2Isabelle
  imports Complex_Main "HOL-Library.Sublist" "HOL-Library.Char_ord" "HOL-Library.List_Lexorder"
    "HOL-Library.Product_Lexorder"
begin

section \<open>Log file analyzer (day04, log\_analyzer.py)\<close>

text \<open>
  A shallow embedding of the classes \<^verbatim>\<open>LogEntry\<close>, \<^verbatim>\<open>LogParser\<close> and \<^verbatim>\<open>LogAnalyzer\<close>.
  Python strings are modelled as \<^typ>\<open>string\<close>: lists of 8-bit characters, read as the code
  points 0 to 255. On these code points the character classes used below coincide with
  Python's Unicode-aware ones. Output written with \<^verbatim>\<open>print\<close> is not part of the model.
\<close>

subsection \<open>The fragment of Python's backtracking regular expressions used by the parser\<close>

text \<open>
  The two log patterns are sequences of literals, single character classes, greedy \<^verbatim>\<open>+\<close>,
  lazy \<^verbatim>\<open>*?\<close> and capture groups that are neither nested nor quantified. A pattern is a list
  of tokens; \<^verbatim>\<open>c+\<close> is written as \<^verbatim>\<open>c\<close> followed by greedy \<^verbatim>\<open>c*\<close>.
\<close>

datatype cclass =
    Digit      \<comment> \<open>\<^verbatim>\<open>\d\<close>\<close>
  | Upper      \<comment> \<open>\<^verbatim>\<open>[A-Z]\<close>\<close>
  | AnyChar    \<comment> \<open>\<^verbatim>\<open>.\<close> (no DOTALL flag: anything but a newline)\<close>
  | Space      \<comment> \<open>\<^verbatim>\<open>\s\<close>\<close>
  | Lit char   \<comment> \<open>a literal character\<close>
  | NoCase char  \<comment> \<open>a literal letter under the IGNORECASE flag\<close>

datatype tok =
    One cclass        \<comment> \<open>exactly one character of the class\<close>
  | Star cclass       \<comment> \<open>greedy \<^verbatim>\<open>*\<close>\<close>
  | LazyStar cclass   \<comment> \<open>lazy \<^verbatim>\<open>*?\<close>\<close>
  | GOpen             \<comment> \<open>\<^verbatim>\<open>(\<close>\<close>
  | GClose            \<comment> \<open>\<^verbatim>\<open>)\<close>\<close>

definition is_digit :: "char \<Rightarrow> bool" where
  "is_digit c = (c \<in> set ''0123456789'')"

definition is_upper :: "char \<Rightarrow> bool" where
  "is_upper c = (c \<in> set ''ABCDEFGHIJKLMNOPQRSTUVWXYZ'')"

definition is_space :: "char \<Rightarrow> bool" where
  "is_space c = (c \<in> set [CHR 0x09, CHR 0x0A, CHR 0x0B, CHR 0x0C, CHR 0x0D, CHR 0x1C, CHR 0x1D,
                            CHR 0x1E, CHR 0x1F, CHR 0x20, CHR 0x85, CHR 0xA0])"

definition lower_char :: "char \<Rightarrow> char" where
  "lower_char c =
     (case map_of (zip ''ABCDEFGHIJKLMNOPQRSTUVWXYZ'' ''abcdefghijklmnopqrstuvwxyz'') c of
        Some l \<Rightarrow> l
      | None \<Rightarrow> c)"

fun accepts :: "cclass \<Rightarrow> char \<Rightarrow> bool" where
  "accepts Digit c = is_digit c"
| "accepts Upper c = is_upper c"
| "accepts AnyChar c = (c \<noteq> CHR 0x0A)"
| "accepts Space c = is_space c"
| "accepts (Lit a) c = (c = a)"
| "accepts (NoCase a) c = (lower_char c = lower_char a)"

text \<open>
  \<open>rmatch ts s pos opens caps\<close> matches the tokens \<open>ts\<close> at the head of the remaining input
  \<open>s\<close>, which starts at offset \<open>pos\<close> of the line. \<open>opens\<close> holds the start offsets of the groups
  that are open, \<open>caps\<close> the spans of the groups closed so far. The result is the first match in
  the order a backtracking matcher tries them: a greedy star takes a character before it tries
  the rest of the pattern, a lazy star tries the rest of the pattern first. Reaching the end of
  the pattern is success wherever the input stands: \<^verbatim>\<open>re.match\<close> anchors at the start only.
\<close>

fun rmatch :: "tok list \<Rightarrow> string \<Rightarrow> nat \<Rightarrow> nat list \<Rightarrow> (nat \<times> nat) list
    \<Rightarrow> (nat \<times> (nat \<times> nat) list) option" where
  "rmatch [] s pos opens caps = Some (pos, caps)"
| "rmatch (GOpen # ts) s pos opens caps = rmatch ts s pos (pos # opens) caps"
| "rmatch (GClose # ts) s pos [] caps = None"
| "rmatch (GClose # ts) s pos (b # opens) caps = rmatch ts s pos opens (caps @ [(b, pos)])"
| "rmatch (One c # ts) [] pos opens caps = None"
| "rmatch (One c # ts) (x # xs) pos opens caps =
     (if accepts c x then rmatch ts xs (Suc pos) opens caps else None)"
| "rmatch (Star c # ts) [] pos opens caps = rmatch ts [] pos opens caps"
| "rmatch (Star c # ts) (x # xs) pos opens caps =
     (if accepts c x
      then (case rmatch (Star c # ts) xs (Suc pos) opens caps of
              Some r \<Rightarrow> Some r
            | None \<Rightarrow> rmatch ts (x # xs) pos opens caps)
      else rmatch ts (x # xs) pos opens caps)"
| "rmatch (LazyStar c # ts) [] pos opens caps = rmatch ts [] pos opens caps"
| "rmatch (LazyStar c # ts) (x # xs) pos opens caps =
     (case rmatch ts (x # xs) pos opens caps of
        Some r \<Rightarrow> Some r
      | None \<Rightarrow> (if accepts c x then rmatch (LazyStar c # ts) xs (Suc pos) opens caps else None))"

text \<open>\<^verbatim>\<open>pattern.match(line)\<close> followed by \<^verbatim>\<open>match.groups()\<close>: the text of every group.\<close>

definition span_text :: "string \<Rightarrow> nat \<times> nat \<Rightarrow> string" where
  "span_text line sp = take (snd sp - fst sp) (drop (fst sp) line)"

definition re_match :: "tok list \<Rightarrow> string \<Rightarrow> string list option" where
  "re_match p line = map_option (\<lambda>r. map (span_text line) (snd r)) (rmatch p line 0 [] [])"

text \<open>The offset at which the match ends (\<^verbatim>\<open>match.end()\<close>).\<close>

definition re_match_end :: "tok list \<Rightarrow> string \<Rightarrow> nat option" where
  "re_match_end p line = map_option fst (rmatch p line 0 [] [])"

definition lits :: "string \<Rightarrow> tok list" where
  "lits s = map (\<lambda>c. One (Lit c)) s"

definition some :: "cclass \<Rightarrow> tok list" where
  "some c = [One c, Star c]"

definition grp :: "tok list \<Rightarrow> tok list" where
  "grp ts = GOpen # ts @ [GClose]"

text \<open>
  \<^verbatim>\<open>(\d+\.\d+\.\d+\.\d+) - - \[(.*?)\] "([A-Z]+) (.*?) HTTP/\d\.\d" (\d+) (\d+)\<close>
\<close>

definition COMMON_LOG_PATTERN :: "tok list" where
  \<open>COMMON_LOG_PATTERN =
     grp (some Digit @ lits ''.'' @ some Digit @ lits ''.'' @ some Digit @ lits ''.'' @ some Digit)
     @ lits '' - - [''
     @ grp [LazyStar AnyChar]
     @ lits ''] "''
     @ grp (some Upper)
     @ lits '' ''
     @ grp [LazyStar AnyChar]
     @ lits '' HTTP/'' @ [One Digit] @ lits ''.'' @ [One Digit] @ lits ''" ''
     @ grp (some Digit)
     @ lits '' ''
     @ grp (some Digit)\<close>

text \<open>
  \<^verbatim>\<open>(\d+\.\d+\.\d+\.\d+) - - \[(.*?)\] "([A-Z]+) (.*?) HTTP/\d\.\d" (\d+) (\d+) "(.*?)" "(.*?)"\<close>:
  the common pattern followed by the two quoted fields.
\<close>

definition COMBINED_TAIL :: "tok list" where
  \<open>COMBINED_TAIL =
     lits '' "'' @ grp [LazyStar AnyChar] @ lits ''" "'' @ grp [LazyStar AnyChar] @ lits ''"''\<close>

definition COMBINED_LOG_PATTERN :: "tok list" where
  "COMBINED_LOG_PATTERN = COMMON_LOG_PATTERN @ COMBINED_TAIL"

subsection \<open>Timestamps\<close>

text \<open>
  A \<^verbatim>\<open>datetime.datetime\<close> without time zone and with microsecond 0 (all that this parser
  builds): year, month, day, hour, minute, second, within the ranges the constructor enforces.
\<close>

definition is_leap :: "nat \<Rightarrow> bool" where
  "is_leap y = (y mod 4 = 0 \<and> (y mod 100 \<noteq> 0 \<or> y mod 400 = 0))"

definition days_in_month :: "nat \<Rightarrow> nat \<Rightarrow> nat" where
  "days_in_month y m =
     (if m = 2 then (if is_leap y then 29 else 28)
      else if m = 4 \<or> m = 6 \<or> m = 9 \<or> m = 11 then 30 else 31)"

fun valid_datetime :: "nat \<times> nat \<times> nat \<times> nat \<times> nat \<times> nat \<Rightarrow> bool" where
  "valid_datetime (y, mo, d, h, mi, s) =
     (1 \<le> y \<and> y \<le> 9999 \<and> 1 \<le> mo \<and> mo \<le> 12 \<and> 1 \<le> d \<and> d \<le> days_in_month y mo
      \<and> h < 24 \<and> mi < 60 \<and> s < 60)"

typedef datetime = "{t. valid_datetime t}"
  morphisms dt_fields mk_datetime
  by (rule exI[of _ "(1, 1, 1, 0, 0, 0)"]) (simp add: days_in_month_def)

datatype py_error = ValueError | ReError

text \<open>The constructor \<^verbatim>\<open>datetime(y, mo, d, h, mi, s)\<close> raises ValueError outside the ranges.\<close>

definition datetime_new :: "nat \<Rightarrow> nat \<Rightarrow> nat \<Rightarrow> nat \<Rightarrow> nat \<Rightarrow> nat \<Rightarrow> py_error + datetime" where
  "datetime_new y mo d h mi s =
     (if valid_datetime (y, mo, d, h, mi, s) then Inr (mk_datetime (y, mo, d, h, mi, s))
      else Inl ValueError)"

definition year :: "datetime \<Rightarrow> nat" where
  "year t = (case dt_fields t of (y, mo, d, h, mi, s) \<Rightarrow> y)"

definition month :: "datetime \<Rightarrow> nat" where
  "month t = (case dt_fields t of (y, mo, d, h, mi, s) \<Rightarrow> mo)"

definition day :: "datetime \<Rightarrow> nat" where
  "day t = (case dt_fields t of (y, mo, d, h, mi, s) \<Rightarrow> d)"

definition hour :: "datetime \<Rightarrow> nat" where
  "hour t = (case dt_fields t of (y, mo, d, h, mi, s) \<Rightarrow> h)"

text \<open>Comparison of datetimes is lexicographic on the six fields.\<close>

fun lex_le :: "nat list \<Rightarrow> nat list \<Rightarrow> bool" where
  "lex_le [] ys = True"
| "lex_le (x # xs) [] = False"
| "lex_le (x # xs) (y # ys) = (x < y \<or> (x = y \<and> lex_le xs ys))"

definition dt_list :: "datetime \<Rightarrow> nat list" where
  "dt_list t = (case dt_fields t of (y, mo, d, h, mi, s) \<Rightarrow> [y, mo, d, h, mi, s])"

definition dt_le :: "datetime \<Rightarrow> datetime \<Rightarrow> bool" where
  "dt_le a b = lex_le (dt_list a) (dt_list b)"

definition dt_less :: "datetime \<Rightarrow> datetime \<Rightarrow> bool" where
  "dt_less a b = (dt_le a b \<and> a \<noteq> b)"

subsection \<open>\<^verbatim>\<open>datetime.strptime(s, "%d/%b/%Y:%H:%M:%S")\<close>\<close>

text \<open>
  The library function, modelled after its implementation: the format is turned into the
  regular expression
  \<^verbatim>\<open>(3[0-1]|[1-2]\d|0[1-9]|[1-9]| [1-9])/(jan|...|dec)/(\d\d\d\d):(2[0-3]|[0-1]\d|\d):([0-5]\d|\d):(6[0-1]|[0-5]\d|\d)\<close>,
  compiled case-insensitively, with the month abbreviations of the C locale. The first match
  from the start of the string is taken; text left over behind it, a date that does not exist
  and a second above 59 raise ValueError. Each directive is a function from the input to its
  alternatives (value and remaining input), in the order the expression tries them.
\<close>

definition digit_val :: "char \<Rightarrow> nat" where
  "digit_val c = of_char c - 48"

definition digit_in :: "nat \<Rightarrow> nat \<Rightarrow> char \<Rightarrow> bool" where
  "digit_in lo hi c = (is_digit c \<and> lo \<le> digit_val c \<and> digit_val c \<le> hi)"

fun one_digit :: "nat \<Rightarrow> nat \<Rightarrow> string \<Rightarrow> (nat \<times> string) list" where
  "one_digit lo hi [] = []"
| "one_digit lo hi (c # s) = (if digit_in lo hi c then [(digit_val c, s)] else [])"

fun two_digits :: "nat \<Rightarrow> nat \<Rightarrow> nat \<Rightarrow> nat \<Rightarrow> string \<Rightarrow> (nat \<times> string) list" where
  "two_digits lo1 hi1 lo2 hi2 (a # b # s) =
     (if digit_in lo1 hi1 a \<and> digit_in lo2 hi2 b then [(10 * digit_val a + digit_val b, s)]
      else [])"
| "two_digits lo1 hi1 lo2 hi2 s = []"

fun lit :: "char \<Rightarrow> string \<Rightarrow> string list" where
  "lit c [] = []"
| "lit c (x # s) = (if x = c then [s] else [])"

definition re_d :: "string \<Rightarrow> (nat \<times> string) list" where
  "re_d s = two_digits 3 3 0 1 s @ two_digits 1 2 0 9 s @ two_digits 0 0 1 9 s @ one_digit 1 9 s
            @ concat (map (one_digit 1 9) (lit (CHR '' '') s))"

definition re_H :: "string \<Rightarrow> (nat \<times> string) list" where
  "re_H s = two_digits 2 2 0 3 s @ two_digits 0 1 0 9 s @ one_digit 0 9 s"

definition re_M :: "string \<Rightarrow> (nat \<times> string) list" where
  "re_M s = two_digits 0 5 0 9 s @ one_digit 0 9 s"

definition re_S :: "string \<Rightarrow> (nat \<times> string) list" where
  "re_S s = two_digits 6 6 0 1 s @ two_digits 0 5 0 9 s @ one_digit 0 9 s"

fun re_Y :: "string \<Rightarrow> (nat \<times> string) list" where
  "re_Y (a # b # c # d # s) =
     (if is_digit a \<and> is_digit b \<and> is_digit c \<and> is_digit d
      then [(1000 * digit_val a + 100 * digit_val b + 10 * digit_val c + digit_val d, s)]
      else [])"
| "re_Y s = []"

text \<open>The month abbreviations with their numbers (\<^verbatim>\<open>a_month.index(name)\<close>).\<close>

definition a_month :: "(nat \<times> string) list" where
  "a_month = [(1, ''jan''), (2, ''feb''), (3, ''mar''), (4, ''apr''), (5, ''may''), (6, ''jun''),
              (7, ''jul''), (8, ''aug''), (9, ''sep''), (10, ''oct''), (11, ''nov''), (12, ''dec'')]"

definition re_b :: "string \<Rightarrow> (nat \<times> string) list" where
  "re_b s = concat (map (\<lambda>(i, name).
                if map lower_char (take (length name) s) = name then [(i, drop (length name) s)]
                else [])
              a_month)"

definition strptime_matches :: "string \<Rightarrow> ((nat \<times> nat \<times> nat \<times> nat \<times> nat \<times> nat) \<times> string) list" where
  "strptime_matches s =
     [((Y, b, d, H, M, S), s11).
        (d, s1) \<leftarrow> re_d s, s2 \<leftarrow> lit (CHR ''/'') s1,
        (b, s3) \<leftarrow> re_b s2, s4 \<leftarrow> lit (CHR ''/'') s3,
        (Y, s5) \<leftarrow> re_Y s4, s6 \<leftarrow> lit (CHR '':'') s5,
        (H, s7) \<leftarrow> re_H s6, s8 \<leftarrow> lit (CHR '':'') s7,
        (M, s9) \<leftarrow> re_M s8, s10 \<leftarrow> lit (CHR '':'') s9,
        (S, s11) \<leftarrow> re_S s10]"

definition strptime :: "string \<Rightarrow> py_error + datetime" where
  "strptime s =
     (case strptime_matches s of
        [] \<Rightarrow> Inl ValueError
      | ((Y, b, d, H, M, S), rest) # others \<Rightarrow>
          if rest \<noteq> [] then Inl ValueError else datetime_new Y b d H M S)"

text \<open>
  \<^verbatim>\<open>LogParser.parse_timestamp\<close>: the text before the first space (\<^verbatim>\<open>split(' ')[0]\<close>), handed
  to \<^verbatim>\<open>strptime\<close>; a ValueError is raised again as ValueError.
\<close>

definition parse_timestamp :: "string \<Rightarrow> py_error + datetime" where
  "parse_timestamp timestamp_str =
     (case strptime (takeWhile (\<lambda>c. c \<noteq> CHR '' '') timestamp_str) of
        Inl e \<Rightarrow> Inl ValueError
      | Inr t \<Rightarrow> Inr t)"

subsection \<open>Log entries and \<^verbatim>\<open>LogParser.parse_log_line\<close>\<close>

record LogEntry =
  raw_log :: string
  timestamp :: datetime
  ip_address :: string
  "method" :: string
  path :: string
  status_code :: int
  response_size :: int
  user_agent :: "string option"
  referer :: "string option"

text \<open>
  \<^verbatim>\<open>int(s)\<close> on the text of a group \<^verbatim>\<open>(\d+)\<close>: a non-empty string of decimal digits is
  read in base ten, unless it has more digits than the interpreter converts (CPython's
  \<^verbatim>\<open>sys.get_int_max_str_digits()\<close>, 4300 unless configured otherwise), which is a ValueError.
  Strings of other shapes (signs, blanks, underscores) are a ValueError in the model; the
  text of a group \<^verbatim>\<open>(\d+)\<close> never has such a shape (lemma \<open>number_groups_are_digits\<close>).
\<close>

definition int_max_str_digits :: nat where
  "int_max_str_digits = 4300"

definition py_int :: "string \<Rightarrow> py_error + int" where
  "py_int s =
     (if s \<noteq> [] \<and> list_all is_digit s \<and> length s \<le> int_max_str_digits
      then Inr (foldl (\<lambda>a c. 10 * a + int (digit_val c)) 0 s)
      else Inl ValueError)"

text \<open>
  The body of the first \<^verbatim>\<open>try\<close> block, on the eight groups of the combined pattern; the
  \<^verbatim>\<open>except ValueError\<close> branch returns \<^verbatim>\<open>None\<close>. The placeholder \<^verbatim>\<open>-\<close> becomes an absent field.
\<close>

fun entry_of_combined :: "string \<Rightarrow> string list \<Rightarrow> LogEntry option" where
  "entry_of_combined log_line [ip, ts, meth, pth, sc, rs, rf, ua] =
     (case parse_timestamp ts of
        Inl e \<Rightarrow> None
      | Inr t \<Rightarrow>
          (case py_int sc of
             Inl e \<Rightarrow> None
           | Inr code \<Rightarrow>
               (case py_int rs of
                  Inl e \<Rightarrow> None
                | Inr sz \<Rightarrow>
                    Some \<lparr>raw_log = log_line, timestamp = t, ip_address = ip, method = meth,
                          path = pth, status_code = code, response_size = sz,
                          user_agent = (if ua \<noteq> ''-'' then Some ua else None),
                          referer = (if rf \<noteq> ''-'' then Some rf else None)\<rparr>)))"
| "entry_of_combined log_line gs = None"

text \<open>The body of the second \<^verbatim>\<open>try\<close> block, on the six groups of the common pattern.\<close>

fun entry_of_common :: "string \<Rightarrow> string list \<Rightarrow> LogEntry option" where
  "entry_of_common log_line [ip, ts, meth, pth, sc, rs] =
     (case parse_timestamp ts of
        Inl e \<Rightarrow> None
      | Inr t \<Rightarrow>
          (case py_int sc of
             Inl e \<Rightarrow> None
           | Inr code \<Rightarrow>
               (case py_int rs of
                  Inl e \<Rightarrow> None
                | Inr sz \<Rightarrow>
                    Some \<lparr>raw_log = log_line, timestamp = t, ip_address = ip, method = meth,
                          path = pth, status_code = code, response_size = sz,
                          user_agent = None, referer = None\<rparr>)))"
| "entry_of_common log_line gs = None"

definition parse_log_line :: "string \<Rightarrow> LogEntry option" where
  "parse_log_line log_line =
     (case re_match COMBINED_LOG_PATTERN log_line of
        Some gs \<Rightarrow> entry_of_combined log_line gs
      | None \<Rightarrow>
          (case re_match COMMON_LOG_PATTERN log_line of
             Some gs \<Rightarrow> entry_of_common log_line gs
           | None \<Rightarrow> None))"

subsection \<open>\<^verbatim>\<open>LogAnalyzer\<close>: the filters\<close>

record LogAnalyzer =
  log_entries :: "LogEntry list"

text \<open>
  A filter is a method of the analyzer object. It is modelled as a function that takes the
  object and returns it together with the outcome of the call: the list built by the
  comprehension, or the exception that ended the call.
\<close>

type_synonym filter_result = "(py_error + LogEntry list) \<times> LogAnalyzer"

definition filter_by_date_range :: "datetime \<Rightarrow> datetime \<Rightarrow> LogAnalyzer \<Rightarrow> filter_result" where
  "filter_by_date_range start_date end_date self =
     (Inr [entry \<leftarrow> log_entries self.
             dt_le start_date (timestamp entry) \<and> dt_le (timestamp entry) end_date], self)"

definition filter_by_ip :: "string \<Rightarrow> LogAnalyzer \<Rightarrow> filter_result" where
  "filter_by_ip ip self = (Inr [entry \<leftarrow> log_entries self. ip_address entry = ip], self)"

text \<open>
  \<^verbatim>\<open>str.upper\<close> on 8-bit code points. The capitals of \<^verbatim>\<open>0xB5\<close> and \<^verbatim>\<open>0xFF\<close> lie outside the 8-bit
  range; the model leaves these two characters as they are.
\<close>

definition upper_char :: "char \<Rightarrow> string" where
  "upper_char c =
     (case map_of (zip ''abcdefghijklmnopqrstuvwxyz'' ''ABCDEFGHIJKLMNOPQRSTUVWXYZ'') c of
        Some u \<Rightarrow> [u]
      | None \<Rightarrow>
          if c = CHR 0xDF then ''SS''
          else if (0xE0::nat) \<le> of_char c \<and> of_char c \<le> (0xFE::nat) \<and> c \<noteq> CHR 0xF7
          then [char_of (of_char c - (0x20::nat))]
          else [c])"

definition str_upper :: "string \<Rightarrow> string" where
  "str_upper s = concat (map upper_char s)"

definition filter_by_method :: "string \<Rightarrow> LogAnalyzer \<Rightarrow> filter_result" where
  "filter_by_method meth self =
     (Inr [entry \<leftarrow> log_entries self. method entry = str_upper meth], self)"

definition filter_by_status_code :: "int \<Rightarrow> LogAnalyzer \<Rightarrow> filter_result" where
  "filter_by_status_code code self =
     (Inr [entry \<leftarrow> log_entries self. status_code entry = code], self)"

definition filter_by_status_code_range :: "int \<Rightarrow> int \<Rightarrow> LogAnalyzer \<Rightarrow> filter_result" where
  "filter_by_status_code_range start_code end_code self =
     (Inr [entry \<leftarrow> log_entries self.
             start_code \<le> status_code entry \<and> status_code entry \<le> end_code], self)"

text \<open>
  The path filter compiles a pattern supplied by the caller with the library's full regular
  expression language. The library is a parameter of the model: \<open>re_compile\<close> returns the
  compiled pattern or fails (\<^verbatim>\<open>re.error\<close>), \<open>re_search\<close> is \<^verbatim>\<open>regex.search(s)\<close> read as a truth
  value.
\<close>

definition filter_by_path_pattern ::
    "(string \<Rightarrow> py_error + 'r) \<Rightarrow> ('r \<Rightarrow> string \<Rightarrow> bool) \<Rightarrow> string \<Rightarrow> LogAnalyzer \<Rightarrow> filter_result" where
  "filter_by_path_pattern re_compile re_search pattern self =
     (case re_compile pattern of
        Inl e \<Rightarrow> (Inl e, self)
      | Inr regex \<Rightarrow> (Inr [entry \<leftarrow> log_entries self. re_search regex (path entry)], self))"

subsection \<open>\<^verbatim>\<open>LogAnalyzer\<close>: counters, rankings and distributions\<close>

text \<open>
  \<^verbatim>\<open>collections.Counter\<close> is a dictionary, which keeps its keys in the order of their first
  insertion: an association list. \<open>counter_add k c\<close> is \<^verbatim>\<open>c[k] += 1\<close>, \<open>Counter xs\<close> counts the
  elements of \<open>xs\<close> from left to right, \<open>counter_get c k\<close> is \<^verbatim>\<open>c.get(k, 0)\<close>.
\<close>

fun counter_add :: "'k \<Rightarrow> ('k \<times> nat) list \<Rightarrow> ('k \<times> nat) list" where
  "counter_add k [] = [(k, 1)]"
| "counter_add k ((k', n) # c) = (if k' = k then (k', Suc n) # c else (k', n) # counter_add k c)"

definition Counter :: "'k list \<Rightarrow> ('k \<times> nat) list" where
  "Counter xs = foldl (\<lambda>c x. counter_add x c) [] xs"

definition counter_get :: "('k \<times> nat) list \<Rightarrow> 'k \<Rightarrow> nat" where
  "counter_get c k = (case map_of c k of None \<Rightarrow> 0 | Some n \<Rightarrow> n)"

text \<open>
  \<^verbatim>\<open>Counter.most_common(n)\<close> for an integer \<open>n\<close> is \<^verbatim>\<open>heapq.nlargest(n, items, key=count)\<close>: the
  first \<open>n\<close> items of the stable sort by descending count, and no item when \<open>n\<close> is not positive.
\<close>

definition most_common :: "int \<Rightarrow> ('k \<times> nat) list \<Rightarrow> ('k \<times> nat) list" where
  "most_common n c = take (nat n) (sort_key (\<lambda>kv. - int (snd kv)) c)"

definition get_top_ips :: "int \<Rightarrow> LogAnalyzer \<Rightarrow> (string \<times> nat) list" where
  "get_top_ips limit self = most_common limit (Counter (map ip_address (log_entries self)))"

definition get_top_paths :: "int \<Rightarrow> LogAnalyzer \<Rightarrow> (string \<times> nat) list" where
  "get_top_paths limit self = most_common limit (Counter (map path (log_entries self)))"

definition get_hourly_distribution :: "LogAnalyzer \<Rightarrow> (nat \<times> nat) list" where
  "get_hourly_distribution self =
     (let hour_counter = Counter (map (\<lambda>entry. hour (timestamp entry)) (log_entries self))
      in map (\<lambda>h. (h, counter_get hour_counter h)) [0..<24])"

text \<open>\<^verbatim>\<open>timestamp.date().isoformat()\<close>: \<^verbatim>\<open>YYYY-MM-DD\<close>, zero-padded.\<close>

definition digit_char :: "nat \<Rightarrow> char" where
  "digit_char n = ''0123456789'' ! (n mod 10)"

definition date_isoformat :: "datetime \<Rightarrow> string" where
  "date_isoformat t =
     [digit_char (year t div 1000), digit_char (year t div 100), digit_char (year t div 10),
      digit_char (year t), CHR ''-'', digit_char (month t div 10), digit_char (month t),
      CHR ''-'', digit_char (day t div 10), digit_char (day t)]"

definition get_daily_distribution :: "LogAnalyzer \<Rightarrow> (string \<times> nat) list" where
  "get_daily_distribution self =
     Counter (map (\<lambda>entry. date_isoformat (timestamp entry)) (log_entries self))"

text \<open>
  The rows that \<^verbatim>\<open>LogAnalyzerCLI.display_daily_distribution\<close> prints:
  \<^verbatim>\<open>sorted(daily_dist.items())\<close>.
\<close>

definition display_daily_rows :: "LogAnalyzer \<Rightarrow> (string \<times> nat) list" where
  "display_daily_rows self = sort (get_daily_distribution self)"

definition get_total_bandwidth :: "LogAnalyzer \<Rightarrow> int" where
  "get_total_bandwidth self = sum_list (map response_size (log_entries self))"

text \<open>
  The average is the integer 0 on an empty store and a float otherwise. The float is
  modelled by the exact quotient: neither the rounding to a double nor the OverflowError for
  a quotient beyond the range of a double is part of the model.
\<close>

datatype py_number = PyInt int | PyFloat rat

definition get_average_response_size :: "LogAnalyzer \<Rightarrow> py_number" where
  "get_average_response_size self =
     (if log_entries self = [] then PyInt 0
      else PyFloat (of_int (get_total_bandwidth self) / of_nat (length (log_entries self))))"

subsection \<open>\<^verbatim>\<open>LogAnalyzer.detect_potential_attacks\<close>\<close>

text \<open>
  \<^verbatim>\<open>pattern.search(s)\<close> as a truth value, for a pattern that is an alternation of token
  sequences: some alternative matches at some offset of \<open>s\<close>.
\<close>

definition matches_here :: "tok list list \<Rightarrow> string \<Rightarrow> bool" where
  "matches_here alts s = list_ex (\<lambda>alt. rmatch alt s 0 [] [] \<noteq> None) alts"

fun pattern_search :: "tok list list \<Rightarrow> string \<Rightarrow> bool" where
  "pattern_search alts [] = matches_here alts []"
| "pattern_search alts (x # xs) = (matches_here alts (x # xs) \<or> pattern_search alts xs)"

definition nocase :: "string \<Rightarrow> tok list" where
  "nocase s = map (\<lambda>c. One (NoCase c)) s"

text \<open>
  \<^verbatim>\<open>(\'|\"|\s+or\s+|\s+and\s+|\s+union\s+|select\s+|drop\s+|--)\<close> with IGNORECASE
\<close>

definition sql_injection_pattern :: "tok list list" where
  \<open>sql_injection_pattern =
     [lits [CHR 0x27], lits ''"'',
      some Space @ nocase ''or'' @ some Space,
      some Space @ nocase ''and'' @ some Space,
      some Space @ nocase ''union'' @ some Space,
      nocase ''select'' @ some Space,
      nocase ''drop'' @ some Space,
      lits ''--'']\<close>

text \<open>\<^verbatim>\<open>(\.\./|\.\.\\)\<close>\<close>

definition path_traversal_pattern :: "tok list list" where
  "path_traversal_pattern = [lits ''../'', lits [CHR ''.'', CHR ''.'', CHR 0x5C]]"

text \<open>
  \<^verbatim>\<open>defaultdict(list)\<close>: \<open>dd_append d k v\<close> is \<^verbatim>\<open>d[k].append(v)\<close> and \<open>dd_extend d k vs\<close> is
  \<^verbatim>\<open>d[k].extend(vs)\<close>; a key that was never touched is absent.
\<close>

definition dd_append :: "('k \<rightharpoonup> 'v list) \<Rightarrow> 'k \<Rightarrow> 'v \<Rightarrow> ('k \<rightharpoonup> 'v list)" where
  "dd_append d k v = d(k \<mapsto> (case d k of None \<Rightarrow> [] | Some vs \<Rightarrow> vs) @ [v])"

definition dd_extend :: "('k \<rightharpoonup> 'v list) \<Rightarrow> 'k \<Rightarrow> 'v list \<Rightarrow> ('k \<rightharpoonup> 'v list)" where
  "dd_extend d k vs = d(k \<mapsto> (case d k of None \<Rightarrow> [] | Some ws \<Rightarrow> ws) @ vs)"

text \<open>The third loop: the number of 404 records of every address, in a \<^verbatim>\<open>defaultdict(int)\<close>.\<close>

definition ip_404_counts :: "LogEntry list \<Rightarrow> (string \<times> nat) list" where
  "ip_404_counts es =
     foldl (\<lambda>c entry. if status_code entry = 404 then counter_add (ip_address entry) c else c) [] es"

definition detect_potential_attacks :: "LogAnalyzer \<Rightarrow> (string \<rightharpoonup> LogEntry list)" where
  "detect_potential_attacks self =
     (let es = log_entries self;
          d1 = foldl (\<lambda>d entry. if pattern_search sql_injection_pattern (path entry)
                                  then dd_append d ''sql_injection'' entry else d) Map.empty es;
          d2 = foldl (\<lambda>d entry. if pattern_search path_traversal_pattern (path entry)
                                  then dd_append d ''path_traversal'' entry else d) d1 es
      in foldl (\<lambda>d (ip, count).
                  if count > 10
                  then dd_extend d ''excessive_404s''
                         [entry \<leftarrow> es. ip_address entry = ip \<and> status_code entry = 404]
                  else d) d2 (ip_404_counts es))"

subsection \<open>Notions used in the statements\<close>

text \<open>The number of capture groups of a pattern.\<close>

fun n_groups :: "tok list \<Rightarrow> nat" where
  "n_groups [] = 0"
| "n_groups (GClose # ts) = Suc (n_groups ts)"
| "n_groups (t # ts) = n_groups ts"

text \<open>The offset of the first occurrence of a key in a list of keys.\<close>

definition first_pos :: "'k list \<Rightarrow> 'k \<Rightarrow> nat" where
  "first_pos xs k = length (takeWhile (\<lambda>y. y \<noteq> k) xs)"

text \<open>
  A ranking of the keys \<open>keys\<close>: every item stands before the items with a smaller count, and
  before the items with the same count whose key occurs first later in \<open>keys\<close>.
\<close>

definition ranked :: "'k list \<Rightarrow> ('k \<times> nat) list \<Rightarrow> bool" where
  "ranked keys r =
     sorted_wrt (\<lambda>a b. snd b < snd a
                   \<or> (snd a = snd b \<and> first_pos keys (fst a) < first_pos keys (fst b))) r"

text \<open>
  The ranking of the first \<open>n\<close> keys of \<open>keys\<close>: distinct keys of the list with the number of
  their occurrences; as many as there are distinct keys, but at most \<open>n\<close>; ranked; and every
  key that is left out ranks behind every item of the list, so that among keys of equal count
  the ones met first are kept.
\<close>

definition top_n_of :: "'k list \<Rightarrow> int \<Rightarrow> ('k \<times> nat) list \<Rightarrow> bool" where
  "top_n_of keys n r \<longleftrightarrow>
     distinct (map fst r)
     \<and> (\<forall>kc \<in> set r. fst kc \<in> set keys \<and> snd kc = count_list keys (fst kc))
     \<and> length r = min (nat n) (card (set keys))
     \<and> ranked keys r
     \<and> (\<forall>kc \<in> set r. \<forall>k' \<in> set keys. k' \<notin> fst ` set r \<longrightarrow>
           count_list keys k' < snd kc
           \<or> (count_list keys k' = snd kc \<and> first_pos keys (fst kc) < first_pos keys k'))"

text \<open>The date keys of the records of a store, in store order.\<close>

definition dates_of :: "LogAnalyzer \<Rightarrow> string list" where
  "dates_of self = map (\<lambda>entry. date_isoformat (timestamp entry)) (log_entries self)"

text \<open>The 404 records of an address, in store order.\<close>

definition records_404 :: "LogAnalyzer \<Rightarrow> string \<Rightarrow> LogEntry list" where
  "records_404 self ip =
     [entry \<leftarrow> log_entries self. ip_address entry = ip \<and> status_code entry = 404]"

text \<open>The category \<^verbatim>\<open>excessive_404s\<close> of the result, empty when the key is absent.\<close>

definition excessive_404s :: "LogAnalyzer \<Rightarrow> LogEntry list" where
  "excessive_404s self =
     (case detect_potential_attacks self ''excessive_404s'' of None \<Rightarrow> [] | Some es \<Rightarrow> es)"



text \<open>
  A pattern is stable under the text \<open>t\<close> when every match it has on an input is also its
  match, with the same end and the same groups, on the input followed by \<open>t\<close>.
\<close>

definition stable_under :: "string \<Rightarrow> tok list \<Rightarrow> bool" where
  "stable_under t ts \<longleftrightarrow>
     (\<forall>s pos opens caps r. rmatch ts s pos opens caps = Some r
        \<longrightarrow> rmatch ts (s @ t) pos opens caps = Some r)"

subsection \<open>Sample data\<close>

text \<open>The example line of the comment above \<^verbatim>\<open>COMMON_LOG_PATTERN\<close>.\<close>

definition sample_line :: string where
  \<open>sample_line =
     ''192.168.1.1 - - [19/Apr/2023:13:55:36 +0000] "GET /index.html HTTP/1.1" 200 2326''\<close>

text \<open>A record of a day of April 2023, at a full hour.\<close>

definition sample_entry :: "string \<Rightarrow> string \<Rightarrow> nat \<Rightarrow> nat \<Rightarrow> int \<Rightarrow> LogEntry" where
  "sample_entry ip pth d h code =
     \<lparr>raw_log = [], timestamp = mk_datetime (2023, 4, d, h, 0, 0), ip_address = ip,
      method = ''GET'', path = pth, status_code = code, response_size = 10,
      user_agent = None, referer = None\<rparr>"

definition store3 :: LogAnalyzer where
  "store3 = \<lparr>log_entries = [sample_entry ''10.0.0.1'' ''/a'' 19 12 200,
                            sample_entry ''10.0.0.2'' ''/b'' 19 13 404,
                            sample_entry ''10.0.0.1'' ''/c'' 20 12 500]\<rparr>"

text \<open>Eleven 404 records of one address and ten of another.\<close>

definition store404 :: LogAnalyzer where
  "store404 = \<lparr>log_entries =
      replicate 11 (sample_entry ''10.0.0.9'' ''/missing'' 19 12 404)
      @ replicate 10 (sample_entry ''10.0.0.1'' ''/gone'' 19 12 404)\<rparr>"

text \<open>Two records whose dates descend in store order.\<close>

definition store_desc :: LogAnalyzer where
  "store_desc = \<lparr>log_entries = [sample_entry ''10.0.0.1'' ''/a'' 20 12 200,
                                sample_entry ''10.0.0.1'' ''/b'' 19 12 200]\<rparr>"

section \<open>Properties\<close>

lemmas pat_defs = COMBINED_LOG_PATTERN_def COMBINED_TAIL_def COMMON_LOG_PATTERN_def grp_def
  some_def lits_def

lemmas cls_defs = is_digit_def is_upper_def

lemmas strptime_defs = parse_timestamp_def strptime_def strptime_matches_def re_d_def re_b_def
  re_H_def re_M_def re_S_def a_month_def lower_char_def digit_in_def digit_val_def
  datetime_new_def days_in_month_def

subsection \<open>Datetimes\<close>

lemma fields_mk: "valid_datetime t \<Longrightarrow> dt_fields (mk_datetime t) = t"
  by (simp add: mk_datetime_inverse)

lemma sample_fields:
  "1 \<le> d \<Longrightarrow> d \<le> 30 \<Longrightarrow> h < 24
   \<Longrightarrow> dt_fields (mk_datetime (2023, 4, d, h, 0, 0)) = (2023, 4, d, h, 0, 0)"
  by (simp add: fields_mk days_in_month_def)

lemma hour_less_24: "hour t < 24"
proof -
  have "valid_datetime (dt_fields t)" using dt_fields[of t] by simp
  then show ?thesis by (cases "dt_fields t") (simp add: hour_def)
qed

lemma lex_le_trans:
  "lex_le xs ys \<Longrightarrow> lex_le ys zs \<Longrightarrow> length xs = length ys \<Longrightarrow> length ys = length zs
   \<Longrightarrow> lex_le xs zs"
proof (induction xs ys arbitrary: zs rule: lex_le.induct)
  case (1 ys)
  then show ?case by simp
next
  case (2 x xs)
  then show ?case by simp
next
  case (3 x xs y ys)
  then show ?case by (cases zs) auto
qed

lemma lex_le_antisym: "lex_le xs ys \<Longrightarrow> lex_le ys xs \<Longrightarrow> length xs = length ys \<Longrightarrow> xs = ys"
  by (induction xs ys rule: lex_le.induct) auto

lemma length_dt_list: "length (dt_list t) = 6"
  by (cases "dt_fields t") (simp add: dt_list_def)

lemma dt_list_inject: "dt_list a = dt_list b \<Longrightarrow> a = b"
proof -
  assume "dt_list a = dt_list b"
  then have "dt_fields a = dt_fields b"
    by (cases "dt_fields a"; cases "dt_fields b") (simp add: dt_list_def)
  then show "a = b" by (simp add: dt_fields_inject)
qed

lemma dt_le_trans: "dt_le a b \<Longrightarrow> dt_le b c \<Longrightarrow> dt_le a c"
  using lex_le_trans[of "dt_list a" "dt_list b" "dt_list c"]
  by (simp add: dt_le_def length_dt_list)

lemma dt_le_antisym: "dt_le a b \<Longrightarrow> dt_le b a \<Longrightarrow> a = b"
  using lex_le_antisym[of "dt_list a" "dt_list b"] dt_list_inject[of a b]
  by (simp add: dt_le_def length_dt_list)

lemma april_19_before_20:
  "dt_less (mk_datetime (2023, 4, 19, 0, 0, 0)) (mk_datetime (2023, 4, 20, 0, 0, 0))"
proof -
  have v: "valid_datetime (2023, 4, 20, 0, 0, 0)" "valid_datetime (2023, 4, 19, 0, 0, 0)"
    by (simp_all add: days_in_month_def)
  then show ?thesis
    by (auto simp: dt_less_def dt_le_def dt_list_def fields_mk
        dest!: arg_cong[where f = dt_fields])
qed

subsection \<open>Counters\<close>

lemma counter_add_keys:
  "map fst (counter_add k c) = (if k \<in> set (map fst c) then map fst c else map fst c @ [k])"
  by (induction c) (auto simp: rev_image_eqI)

lemma map_of_counter_add:
  "map_of (counter_add k c) k' = (if k' = k then Some (Suc (counter_get c k)) else map_of c k')"
  by (induction c) (auto simp: counter_get_def)

lemma Counter_snoc: "Counter (xs @ [x]) = counter_add x (Counter xs)"
  by (simp add: Counter_def)

lemma Counter_Nil: "Counter [] = []"
  by (simp add: Counter_def)

lemma Counter_keys_set: "set (map fst (Counter xs)) = set xs"
proof (induction xs rule: rev_induct)
  case Nil
  show ?case by (simp add: Counter_Nil)
next
  case (snoc x xs)
  then show ?case by (auto simp: Counter_snoc counter_add_keys)
qed

lemma Counter_keys_distinct: "distinct (map fst (Counter xs))"
proof (induction xs rule: rev_induct)
  case Nil
  show ?case by (simp add: Counter_Nil)
next
  case (snoc x xs)
  then show ?case using Counter_keys_set[of xs] by (auto simp: Counter_snoc counter_add_keys)
qed

lemma map_of_Counter:
  "map_of (Counter xs) k = (if k \<in> set xs then Some (count_list xs k) else None)"
proof (induction xs rule: rev_induct)
  case Nil
  show ?case by (simp add: Counter_Nil)
next
  case (snoc x xs)
  then show ?case
    by (auto simp: Counter_snoc map_of_counter_add counter_get_def)
qed

lemma counter_get_Counter: "counter_get (Counter xs) k = count_list xs k"
  by (simp add: counter_get_def map_of_Counter count_list_0_iff)

lemma Counter_items: "(k, n) \<in> set (Counter xs) \<longleftrightarrow> k \<in> set xs \<and> n = count_list xs k"
proof
  assume "(k, n) \<in> set (Counter xs)"
  then have "map_of (Counter xs) k = Some n"
    using Counter_keys_distinct[of xs] by (simp add: map_of_eq_Some_iff)
  then show "k \<in> set xs \<and> n = count_list xs k"
    by (simp add: map_of_Counter split: if_splits)
next
  assume "k \<in> set xs \<and> n = count_list xs k"
  then have "map_of (Counter xs) k = Some n" by (simp add: map_of_Counter)
  then show "(k, n) \<in> set (Counter xs)" by (rule map_of_SomeD)
qed

lemma first_pos_snoc_old: "k \<in> set xs \<Longrightarrow> first_pos (xs @ [x]) k = first_pos xs k"
  by (simp add: first_pos_def takeWhile_append1 )

lemma first_pos_less: "k \<in> set xs \<Longrightarrow> first_pos xs k < length xs"
  by (induction xs) (auto simp: first_pos_def)

lemma first_pos_snoc_new: "x \<notin> set xs \<Longrightarrow> first_pos (xs @ [x]) x = length xs"
  by (induction xs) (auto simp: first_pos_def)

lemma Counter_first_order:
  "sorted_wrt (\<lambda>a b. first_pos xs a < first_pos xs b) (map fst (Counter xs))"
proof (induction xs rule: rev_induct)
  case Nil
  show ?case by (simp add: Counter_Nil)
next
  case (snoc x xs)
  have keys: "set (map fst (Counter xs)) = set xs" by (rule Counter_keys_set)
  have old: "sorted_wrt (\<lambda>a b. first_pos (xs @ [x]) a < first_pos (xs @ [x]) b) (map fst (Counter xs))"
  proof (rule sorted_wrt_mono_rel[OF _ snoc])
    fix a b assume "a \<in> set (map fst (Counter xs))" "b \<in> set (map fst (Counter xs))"
      "first_pos xs a < first_pos xs b"
    then show "first_pos (xs @ [x]) a < first_pos (xs @ [x]) b"
      using keys by (simp add: first_pos_snoc_old)
  qed
  show ?case
  proof (cases "x \<in> set xs")
    case True
    then show ?thesis using old keys by (simp add: Counter_snoc counter_add_keys)
  next
    case False
    then show ?thesis using old keys
      by (auto simp: Counter_snoc counter_add_keys sorted_wrt_append first_pos_snoc_old first_pos_snoc_new first_pos_less)
  qed
qed

subsection \<open>Stable sorting by descending count\<close>

lemma insort_desc_stable:
  fixes g :: "'a \<Rightarrow> nat" and cnt :: "'a \<Rightarrow> nat"
  assumes "sorted_wrt (\<lambda>a b. cnt b < cnt a \<or> (cnt a = cnt b \<and> g a < g b)) ys"
    and "\<forall>y \<in> set ys. g x < g y"
  shows "sorted_wrt (\<lambda>a b. cnt b < cnt a \<or> (cnt a = cnt b \<and> g a < g b))
           (insort_key (\<lambda>kv. - int (cnt kv)) x ys)"
  using assms
proof (induction ys)
  case Nil
  then show ?case by simp
next
  case (Cons y ys)
  show ?case
  proof (cases "cnt y \<le> cnt x")
    case True
    have "\<forall>z \<in> set ys. cnt z \<le> cnt y" using Cons.prems(1) by auto
    then have "\<forall>z \<in> set (y # ys). cnt z < cnt x \<or> (cnt x = cnt z \<and> g x < g z)"
      using True Cons.prems(2) by force
    then show ?thesis using True Cons.prems(1) by simp
  next
    case False
    have tail: "sorted_wrt (\<lambda>a b. cnt b < cnt a \<or> (cnt a = cnt b \<and> g a < g b))
           (insort_key (\<lambda>kv. - int (cnt kv)) x ys)"
      using Cons by simp
    show ?thesis using False tail Cons.prems(1)
      by (auto simp: set_insort_key)
  qed
qed

lemma sort_desc_stable:
  fixes g :: "'a \<Rightarrow> nat" and cnt :: "'a \<Rightarrow> nat"
  assumes "sorted_wrt (\<lambda>a b. g a < g b) xs"
  shows "sorted_wrt (\<lambda>a b. cnt b < cnt a \<or> (cnt a = cnt b \<and> g a < g b))
           (sort_key (\<lambda>kv. - int (cnt kv)) xs)"
  using assms
proof (induction xs)
  case Nil
  then show ?case by simp
next
  case (Cons x xs)
  then show ?case by (auto intro!: insort_desc_stable)
qed

lemma most_common_ranked: "ranked keys (most_common n (Counter keys))"
proof -
  have "sorted_wrt (\<lambda>a b. first_pos keys (fst a) < first_pos keys (fst b)) (Counter keys)"
    using Counter_first_order[of keys] by (simp add: sorted_wrt_map)
  then have "sorted_wrt (\<lambda>a b. snd b < snd a
                   \<or> (snd a = snd b \<and> first_pos keys (fst a) < first_pos keys (fst b)))
       (sort_key (\<lambda>kv. - int (snd kv)) (Counter keys))"
    by (rule sort_desc_stable)
  then show ?thesis
    unfolding ranked_def most_common_def by (rule sorted_wrt_take)
qed

lemma most_common_zero: "most_common 0 c = []"
  by (simp add: most_common_def)

lemma length_Counter: "length (Counter keys) = card (set keys)"
proof -
  have "length (Counter keys) = length (map fst (Counter keys))" by simp
  also have "\<dots> = card (set (map fst (Counter keys)))"
    using Counter_keys_distinct[of keys] by (simp only: distinct_card)
  also have "\<dots> = card (set keys)" by (simp only: Counter_keys_set)
  finally show ?thesis .
qed

lemma most_common_all:
  assumes "int (length keys) \<le> n"
  shows "set (most_common n (Counter keys)) = {(k, count_list keys k) | k. k \<in> set keys}"
    and "distinct (map fst (most_common n (Counter keys)))"
    and "length (most_common n (Counter keys)) = card (set keys)"
proof -
  have "card (set keys) \<le> length keys" by (rule card_length)
  then have len: "length (Counter keys) \<le> nat n" using assms by (simp add: length_Counter)
  then have eq: "most_common n (Counter keys) = sort_key (\<lambda>kv. - int (snd kv)) (Counter keys)"
    by (simp add: most_common_def)
  show "set (most_common n (Counter keys)) = {(k, count_list keys k) | k. k \<in> set keys}"
    using Counter_items[of _ _ keys] by (auto simp: eq)
  have "distinct (map fst (Counter keys))" by (rule Counter_keys_distinct)
  then have "distinct (map fst (sort_key (\<lambda>kv. - int (snd kv)) (Counter keys)))"
    by (simp add: distinct_map)
  then show "distinct (map fst (most_common n (Counter keys)))" by (simp only: eq)
  show "length (most_common n (Counter keys)) = card (set keys)"
    by (simp add: eq length_Counter)
qed

text \<open>The first \<open>n\<close> items of the ranking, for every \<open>n\<close>.\<close>

lemma most_common_full:
  "most_common (int (length keys)) (Counter keys) = sort_key (\<lambda>kv. - int (snd kv)) (Counter keys)"
proof -
  have "card (set keys) \<le> length keys" by (rule card_length)
  then show ?thesis by (simp add: most_common_def length_Counter)
qed

lemma most_common_take:
  "most_common n (Counter keys) = take (nat n) (most_common (int (length keys)) (Counter keys))"
  unfolding most_common_full by (simp add: most_common_def)

lemma most_common_top_n: "top_n_of keys n (most_common n (Counter keys))"
proof -
  let ?full = "sort_key (\<lambda>kv. - int (snd kv)) (Counter keys)"
  let ?r = "most_common n (Counter keys)"
  let ?R = "\<lambda>a b. snd b < snd a
                   \<or> (snd a = snd b \<and> first_pos keys (fst a) < first_pos keys (fst b))"
  have r: "?r = take (nat n) ?full" by (simp add: most_common_def)
  have full_set: "set ?full = set (Counter keys)" by simp
  have "distinct (map fst (Counter keys))" by (rule Counter_keys_distinct)
  then have dfull: "distinct (map fst ?full)" by (simp add: distinct_map)
  then have d: "distinct (map fst ?r)" unfolding r take_map[symmetric] by (rule distinct_take)
  have items: "\<forall>kc \<in> set ?r. fst kc \<in> set keys \<and> snd kc = count_list keys (fst kc)"
  proof
    fix kc assume "kc \<in> set ?r"
    then have "kc \<in> set (Counter keys)" unfolding r using full_set by (auto dest: in_set_takeD)
    then have "(fst kc, snd kc) \<in> set (Counter keys)" by simp
    then show "fst kc \<in> set keys \<and> snd kc = count_list keys (fst kc)"
      by (simp only: Counter_items)
  qed
  have len: "length ?r = min (nat n) (card (set keys))"
    by (simp add: r length_Counter min.commute)
  have rk: "ranked keys ?r" by (rule most_common_ranked)
  have "ranked keys (most_common (int (length keys)) (Counter keys))" by (rule most_common_ranked)
  then have sfull: "sorted_wrt ?R ?full" by (simp only: most_common_full ranked_def)
  have out: "\<forall>kc \<in> set ?r. \<forall>k' \<in> set keys. k' \<notin> fst ` set ?r \<longrightarrow>
           count_list keys k' < snd kc
           \<or> (count_list keys k' = snd kc \<and> first_pos keys (fst kc) < first_pos keys k')"
  proof (intro ballI impI)
    fix kc k' assume kc: "kc \<in> set ?r" and k': "k' \<in> set keys" and no: "k' \<notin> fst ` set ?r"
    have "(k', count_list keys k') \<in> set (Counter keys)" using k' by (simp add: Counter_items)
    then have "(k', count_list keys k') \<in> set ?full" by simp
    moreover have "set ?full = set (take (nat n) ?full) \<union> set (drop (nat n) ?full)"
      by (simp only: set_append[symmetric] append_take_drop_id)
    moreover have "(k', count_list keys k') \<notin> set (take (nat n) ?full)"
      using no unfolding r by force
    ultimately have b: "(k', count_list keys k') \<in> set (drop (nat n) ?full)" by blast
    have "sorted_wrt ?R (take (nat n) ?full @ drop (nat n) ?full)"
      using sfull by (simp only: append_take_drop_id)
    then have "\<forall>a \<in> set (take (nat n) ?full). \<forall>b \<in> set (drop (nat n) ?full). ?R a b"
      unfolding sorted_wrt_append by blast
    then have "?R kc (k', count_list keys k')" using kc b unfolding r by blast
    then show "count_list keys k' < snd kc
           \<or> (count_list keys k' = snd kc \<and> first_pos keys (fst kc) < first_pos keys k')"
      by auto
  qed
  show ?thesis unfolding top_n_of_def using d items len rk out by blast
qed

text \<open>The specification \<open>top_n_of\<close> determines the list.\<close>

lemma sorted_wrt_unique:
  assumes "\<And>a b. R a b \<Longrightarrow> \<not> R b a"
  shows "sorted_wrt R xs \<Longrightarrow> sorted_wrt R ys \<Longrightarrow> distinct xs \<Longrightarrow> distinct ys
         \<Longrightarrow> set xs = set ys \<Longrightarrow> xs = ys"
proof (induction xs arbitrary: ys)
  case Nil
  then show ?case by simp
next
  case (Cons x xs)
  then obtain y ys' where ys: "ys = y # ys'" by (cases ys) auto
  have xy: "x = y"
  proof (rule ccontr)
    assume ne: "x \<noteq> y"
    then have "x \<in> set ys'" using Cons.prems(5) ys by auto
    then have 1: "R y x" using Cons.prems(2) ys by simp
    have "y \<in> set xs" using Cons.prems(5) ys ne by auto
    then have "R x y" using Cons.prems(1) by simp
    then show False using 1 assms by blast
  qed
  have "set xs = set ys'" using Cons.prems(3,4,5) ys xy by auto
  then have "xs = ys'" using Cons.IH[of ys'] Cons.prems ys by simp
  then show ?case using xy ys by simp
qed

lemma top_n_of_unique:
  assumes r: "top_n_of keys n r" and r': "top_n_of keys n r'"
  shows "r = r'"
proof -
  let ?R = "\<lambda>a b. snd b < snd a
                   \<or> (snd a = snd b \<and> first_pos keys (fst a) < first_pos keys (fst b))"
  have pair: "kc = (fst kc, count_list keys (fst kc))" if "kc \<in> set x" "top_n_of keys n x" for kc x
    using that by (auto simp: top_n_of_def prod_eq_iff)
  have sub: "set a \<subseteq> set b" if a: "top_n_of keys n a" and b: "top_n_of keys n b" for a b
  proof (rule ccontr)
    assume "\<not> set a \<subseteq> set b"
    then obtain u where u: "u \<in> set a" "u \<notin> set b" by blast
    have da: "distinct a" and db: "distinct b"
      using a b by (auto simp: top_n_of_def distinct_map)
    have "card (set a) = card (set b)"
      using a b da db by (simp add: top_n_of_def distinct_card)
    then have "\<not> set b \<subseteq> set a"
      using u by (metis List.finite_set card_subset_eq)
    then obtain v where v: "v \<in> set b" "v \<notin> set a" by blast
    have ku: "fst u \<in> set keys" and kv: "fst v \<in> set keys"
      using a b u v by (auto simp: top_n_of_def)
    have "fst u \<notin> fst ` set b"
    proof
      assume "fst u \<in> fst ` set b"
      then obtain w where w: "w \<in> set b" "fst w = fst u" by auto
      then have "w = u" using pair[OF w(1) b] pair[OF u(1) a] by simp
      then show False using w u by simp
    qed
    then have 1: "?R v u" using b v(1) ku pair[OF u(1) a]
      unfolding top_n_of_def by (metis snd_conv)
    have "fst v \<notin> fst ` set a"
    proof
      assume "fst v \<in> fst ` set a"
      then obtain w where w: "w \<in> set a" "fst w = fst v" by auto
      then have "w = v" using pair[OF w(1) a] pair[OF v(1) b] by simp
      then show False using w v by simp
    qed
    then have 2: "?R u v" using a u(1) kv pair[OF v(1) b]
      unfolding top_n_of_def by (metis snd_conv)
    show False using 1 2 by auto
  qed
  have s: "set r = set r'" using sub[OF r r'] sub[OF r' r] by blast
  have d: "distinct r" "distinct r'" using r r' by (auto simp: top_n_of_def distinct_map)
  have so: "sorted_wrt ?R r" "sorted_wrt ?R r'" using r r' by (simp_all add: top_n_of_def ranked_def)
  show ?thesis
    by (rule sorted_wrt_unique[of ?R, OF _ so d s]) auto
qed

lemma sum_counts_upt:
  assumes "\<forall>x \<in> set xs. x < n"
  shows "sum_list (map (count_list xs) [0..<n]) = length xs"
proof -
  have "sum_list (map (count_list xs) [0..<n]) = sum (count_list xs) {0..<n}"
    by (simp add: sum_list_distinct_conv_sum_set)
  also have "\<dots> = length xs"
    using assms by (intro sum_count_set) auto
  finally show ?thesis .
qed

subsection \<open>The excessive-404 rule\<close>

lemma ip_404_counts_Counter:
  "ip_404_counts es = Counter (map ip_address (filter (\<lambda>e. status_code e = 404) es))"
  by (induction es rule: rev_induct) (simp_all add: ip_404_counts_def Counter_def)

lemma count_404: "count_list (map ip_address (filter (\<lambda>e. status_code e = 404) es)) ip
    = length (filter (\<lambda>e. ip_address e = ip \<and> status_code e = 404) es)"
  by (induction es) auto

lemma append_loop_other_key:
  "k' \<noteq> k \<Longrightarrow> foldl (\<lambda>d e. if P e then dd_append d k e else d) d0 es k' = d0 k'"
  by (induction es arbitrary: d0) (simp_all add: dd_append_def)

lemma extend_loop_key:
  "(case foldl (\<lambda>d (ip, count). if P count then dd_extend d k (sel ip) else d) d0 items k of
       None \<Rightarrow> [] | Some vs \<Rightarrow> vs)
   = (case d0 k of None \<Rightarrow> [] | Some vs \<Rightarrow> vs)
       @ concat (map (\<lambda>(ip, count). sel ip) (filter (\<lambda>(ip, count). P count) items))"
  by (induction items arbitrary: d0) (auto simp: dd_extend_def)

lemma extend_loop_absent:
  "foldl (\<lambda>d (ip, count). if P count then dd_extend d k (sel ip) else d) d0 items k = None
   \<longleftrightarrow> d0 k = None \<and> filter (\<lambda>(ip, count). P count) items = []"
proof (induction items arbitrary: d0)
  case Nil
  then show ?case by simp
next
  case (Cons x items)
  obtain ip c where x: "x = (ip, c)" by (cases x)
  show ?case
  proof (cases "P c")
    case True
    have "dd_extend d0 k (sel ip) k \<noteq> None" by (simp add: dd_extend_def)
    then show ?thesis using True x Cons[of "dd_extend d0 k (sel ip)"] by simp
  next
    case False
    then show ?thesis using x Cons[of d0] by simp
  qed
qed

lemma concat_single_key:
  "distinct (map fst xs) \<Longrightarrow>
   concat (map (\<lambda>(k, c). if k = ip then v else []) xs) = (if (\<exists>c. (ip, c) \<in> set xs) then v else [])"
proof (induction xs)
  case Nil
  then show ?case by simp
next
  case (Cons x xs)
  obtain k c where x: "x = (k, c)" by (cases x)
  show ?case
  proof (cases "k = ip")
    case True
    then have "\<not> (\<exists>c. (ip, c) \<in> set xs)" using Cons.prems x by (auto simp: image_iff)
    then have "concat (map (\<lambda>(k, c). if k = ip then v else []) xs) = []"
      using Cons by simp
    then show ?thesis using True x by auto
  next
    case False
    then show ?thesis using Cons x by auto
  qed
qed

lemma prior_loops_leave_key:
  "foldl (\<lambda>d entry. if Q entry then dd_append d ''path_traversal'' entry else d)
     (foldl (\<lambda>d entry. if P entry then dd_append d ''sql_injection'' entry else d) Map.empty es)
     es' ''excessive_404s'' = None"
proof -
  have "foldl (\<lambda>d entry. if P entry then dd_append d ''sql_injection'' entry else d) Map.empty es
          ''excessive_404s'' = None"
    by (subst append_loop_other_key) simp_all
  then show ?thesis
    by (subst append_loop_other_key) simp_all
qed

lemma excessive_404s_eq:
  "excessive_404s self =
     concat (map (\<lambda>(ip, count). records_404 self ip)
               (filter (\<lambda>(ip, count). 10 < count) (ip_404_counts (log_entries self))))"
  unfolding excessive_404s_def detect_potential_attacks_def Let_def records_404_def
  by (simp only: extend_loop_key[where P = "\<lambda>c. 10 < c"] prior_loops_leave_key option.case append_Nil)

lemma key_absent_iff:
  "detect_potential_attacks self ''excessive_404s'' = None
   \<longleftrightarrow> filter (\<lambda>(ip, count). 10 < count) (ip_404_counts (log_entries self)) = []"
  unfolding detect_potential_attacks_def Let_def
  by (simp only: extend_loop_absent[where P = "\<lambda>c. 10 < c"] prior_loops_leave_key simp_thms)

lemma flagged_keys:
  "(\<exists>c. (ip, c) \<in> set (filter (\<lambda>(ip, count). 10 < count) (ip_404_counts (log_entries self))))
   \<longleftrightarrow> 10 < length (records_404 self ip)"
proof -
  let ?ks = "map ip_address (filter (\<lambda>e. status_code e = 404) (log_entries self))"
  have "(\<exists>c. (ip, c) \<in> set (filter (\<lambda>(ip, count). 10 < count) (Counter ?ks)))
        \<longleftrightarrow> (\<exists>n. (ip, n) \<in> set (Counter ?ks) \<and> 10 < n)"
    by simp
  also have "\<dots> \<longleftrightarrow> ip \<in> set ?ks \<and> 10 < count_list ?ks ip"
    by (simp add: Counter_items)
  also have "\<dots> \<longleftrightarrow> 10 < count_list ?ks ip"
    using count_list_0_iff[of ?ks ip] by auto
  finally show ?thesis by (simp add: ip_404_counts_Counter count_404 records_404_def)
qed

lemma filter_records_404:
  "filter (\<lambda>e. ip_address e = ip) (records_404 self ip') = (if ip' = ip then records_404 self ip else [])"
  unfolding records_404_def filter_filter
  by (auto intro!: filter_cong simp: filter_empty_conv)

lemma excessive_per_ip:
  "filter (\<lambda>e. ip_address e = ip) (excessive_404s self)
   = (if 10 < length (records_404 self ip) then records_404 self ip else [])"
proof -
  let ?fl = "filter (\<lambda>(ip, count). 10 < count) (ip_404_counts (log_entries self))"
  have dist: "distinct (map fst ?fl)"
    by (simp add: ip_404_counts_Counter distinct_map_filter Counter_keys_distinct)
  have "filter (\<lambda>e. ip_address e = ip) (excessive_404s self)
      = concat (map (\<lambda>(k, c). filter (\<lambda>e. ip_address e = ip) (records_404 self k)) ?fl)"
    by (simp add: excessive_404s_eq filter_concat comp_def case_prod_unfold)
  also have "\<dots> = concat (map (\<lambda>(k, c). if k = ip then records_404 self ip else []) ?fl)"
    by (simp only: filter_records_404)
  also have "\<dots> = (if (\<exists>c. (ip, c) \<in> set ?fl) then records_404 self ip else [])"
    using dist by (rule concat_single_key)
  finally show ?thesis by (simp only: flagged_keys)
qed

subsection \<open>The matcher\<close>

lemma rmatch_prefix_pattern:
  "rmatch (ts @ us) s pos opens caps = Some r \<Longrightarrow> \<exists>r'. rmatch ts s pos opens caps = Some r'"
  by (induction ts s pos opens caps arbitrary: r rule: rmatch.induct)
     (auto split: if_splits option.splits)

lemma rmatch_extend_input:
  "rmatch ts s pos opens caps = Some r \<Longrightarrow> \<exists>r'. rmatch ts (s @ t) pos opens caps = Some r'"
proof (induction ts s pos opens caps arbitrary: r rule: rmatch.induct)
  case (7 c ts pos opens caps)
  then show ?case by (cases t) (auto split: option.splits)
next
  case (9 c ts pos opens caps)
  then show ?case by (cases t) (auto split: option.splits)
qed (auto split: if_splits option.splits)


lemma rmatch_group_count:
  "rmatch ts s pos opens caps = Some r \<Longrightarrow> length (snd r) = length caps + n_groups ts"
proof (induction ts s pos opens caps rule: rmatch.induct)
  case (8 c ts x xs pos opens caps)
  then show ?case by (simp split: if_splits option.splits)
next
  case (10 c ts x xs pos opens caps)
  then show ?case by (simp split: if_splits option.splits)
qed (auto split: if_splits)






lemma n_groups_combined: "n_groups COMBINED_LOG_PATTERN = 8"
  by (simp add: pat_defs)

lemma re_match_length: "re_match p line = Some gs \<Longrightarrow> length gs = n_groups p"
  by (auto simp: re_match_def dest: rmatch_group_count)

lemma combined_implies_common:
  "re_match COMBINED_LOG_PATTERN line = Some gs \<Longrightarrow> \<exists>gs'. re_match COMMON_LOG_PATTERN line = Some gs'"
  unfolding re_match_def COMBINED_LOG_PATTERN_def
  by (auto dest: rmatch_prefix_pattern)

lemma re_match_extend:
  "re_match p line = Some gs \<Longrightarrow> \<exists>gs'. re_match p (line @ t) = Some gs'"
  unfolding re_match_def by (auto dest: rmatch_extend_input[where t = t])





lemma entry_of_common_fields:
  "entry_of_common l gs = Some r \<Longrightarrow> raw_log r = l \<and> referer r = None \<and> user_agent r = None"
  by (cases "(l, gs)" rule: entry_of_common.cases) (auto split: sum.splits)

lemma entry_of_combined_fields:
  "entry_of_combined l gs = Some r \<Longrightarrow> length gs = 8 \<Longrightarrow>
     referer r = (if gs ! 6 \<noteq> ''-'' then Some (gs ! 6) else None)
     \<and> user_agent r = (if gs ! 7 \<noteq> ''-'' then Some (gs ! 7) else None)"
  by (cases "(l, gs)" rule: entry_of_combined.cases) (auto split: sum.splits)

lemma common_sample_line:
  "re_match COMMON_LOG_PATTERN sample_line
     = Some [''192.168.1.1'', ''19/Apr/2023:13:55:36 +0000'', ''GET'', ''/index.html'', ''200'', ''2326'']"
  by (simp add: re_match_def pat_defs cls_defs sample_line_def span_text_def)

lemma combined_sample_line: "re_match COMBINED_LOG_PATTERN sample_line = None"
  by (simp add: re_match_def pat_defs cls_defs sample_line_def span_text_def)

lemma timestamp_sample: "parse_timestamp ''19/Apr/2023:13:55:36 +0000'' = Inr (mk_datetime (2023, 4, 19, 13, 55, 36))"
  by (simp add: strptime_defs cls_defs)

lemma int_sample: "py_int ''200'' = Inr 200" "py_int ''2326'' = Inr 2326"
  by (simp_all add: py_int_def cls_defs digit_val_def int_max_str_digits_def)

subsection \<open>The numeric groups\<close>









subsection \<open>Text appended to the line\<close>








lemma lits_eq:
  "rmatch (lits l @ us) (l @ w) pos opens caps = rmatch us w (pos + length l) opens caps"
  by (induction l arbitrary: pos) (simp_all add: lits_def)














text \<open>
  The match of the common pattern is stable under every text that does not begin with a digit:
  the greedy classes are followed by a literal outside the class, and a lazy group cannot end
  earlier on the longer input.
\<close>

lemma stableI:
  "(\<And>s pos opens caps r. rmatch ts s pos opens caps = Some r
       \<Longrightarrow> rmatch ts (s @ t) pos opens caps = Some r) \<Longrightarrow> stable_under t ts"
  unfolding stable_under_def by blast

lemma stableD:
  "stable_under t ts \<Longrightarrow> rmatch ts s pos opens caps = Some r
   \<Longrightarrow> rmatch ts (s @ t) pos opens caps = Some r"
  unfolding stable_under_def by blast

lemma stable_Nil: "stable_under t []"
  by (rule stableI) simp



lemma stable_One: "stable_under t ts \<Longrightarrow> stable_under t (One c # ts)"
proof (rule stableI)
  fix s pos opens caps r
  assume a: "stable_under t ts" and m: "rmatch (One c # ts) s pos opens caps = Some r"
  show "rmatch (One c # ts) (s @ t) pos opens caps = Some r"
  proof (cases s)
    case Nil
    then show ?thesis using m by simp
  next
    case (Cons x xs)
    then have "accepts c x" "rmatch ts xs (Suc pos) opens caps = Some r"
      using m by (auto split: if_splits)
    then show ?thesis using Cons stableD[OF a] by simp
  qed
qed








lemma stable_lits: "stable_under t us \<Longrightarrow> stable_under t (lits l @ us)"
  by (induction l) (simp_all add: lits_def stable_One)



subsection \<open>Grammar precedence\<close>

text \<open>
  C1. \<^verbatim>\<open>parse_log_line\<close> tries the combined pattern before the common one. Every line that the
  combined pattern matches is also matched by the common pattern, which is a prefix of it; on
  such a line the result is the interpretation of the eight groups of the combined match, with
  referer and user agent taken from the seventh and eighth group (the placeholder \<^verbatim>\<open>-\<close> read as
  absent), and never the interpretation of the common match.
\<close>

theorem combined_grammar_first:
  assumes "re_match COMBINED_LOG_PATTERN line = Some gs"
  shows "(\<exists>gs'. re_match COMMON_LOG_PATTERN line = Some gs')
     \<and> length gs = 8
     \<and> parse_log_line line = entry_of_combined line gs
     \<and> (\<forall>r. parse_log_line line = Some r \<longrightarrow>
           referer r = (if gs ! 6 \<noteq> ''-'' then Some (gs ! 6) else None)
           \<and> user_agent r = (if gs ! 7 \<noteq> ''-'' then Some (gs ! 7) else None))"
proof -
  have len: "length gs = 8" using re_match_length[OF assms] by (simp add: n_groups_combined)
  have p: "parse_log_line line = entry_of_combined line gs"
    using assms by (simp add: parse_log_line_def)
  show ?thesis using combined_implies_common[OF assms] len p entry_of_combined_fields[OF _ len]
    by auto
qed

text \<open>
  The example line of the comment above \<^verbatim>\<open>COMBINED_LOG_PATTERN\<close>: both patterns match it, and
  the record carries the referer and the user agent.
\<close>

theorem combined_grammar_first_witness:
  \<open>re_match COMBINED_LOG_PATTERN
      ''192.168.1.1 - - [19/Apr/2023:13:55:36 +0000] "GET /index.html HTTP/1.1" 200 2326 "http://example.com" "Mozilla/5.0 ..."''
     = Some [''192.168.1.1'', ''19/Apr/2023:13:55:36 +0000'', ''GET'', ''/index.html'', ''200'',
             ''2326'', ''http://example.com'', ''Mozilla/5.0 ...'']
   \<and> (\<exists>gs'. re_match COMMON_LOG_PATTERN
      ''192.168.1.1 - - [19/Apr/2023:13:55:36 +0000] "GET /index.html HTTP/1.1" 200 2326 "http://example.com" "Mozilla/5.0 ..."''
     = Some gs')
   \<and> parse_log_line
      ''192.168.1.1 - - [19/Apr/2023:13:55:36 +0000] "GET /index.html HTTP/1.1" 200 2326 "http://example.com" "Mozilla/5.0 ..."''
     = Some \<lparr>raw_log = ''192.168.1.1 - - [19/Apr/2023:13:55:36 +0000] "GET /index.html HTTP/1.1" 200 2326 "http://example.com" "Mozilla/5.0 ..."'',
           timestamp = mk_datetime (2023, 4, 19, 13, 55, 36), ip_address = ''192.168.1.1'',
           method = ''GET'', path = ''/index.html'', status_code = 200, response_size = 2326,
           user_agent = Some ''Mozilla/5.0 ...'', referer = Some ''http://example.com''\<rparr>\<close>
proof -
  have m: \<open>re_match COMBINED_LOG_PATTERN
      ''192.168.1.1 - - [19/Apr/2023:13:55:36 +0000] "GET /index.html HTTP/1.1" 200 2326 "http://example.com" "Mozilla/5.0 ..."''
     = Some [''192.168.1.1'', ''19/Apr/2023:13:55:36 +0000'', ''GET'', ''/index.html'', ''200'',
             ''2326'', ''http://example.com'', ''Mozilla/5.0 ...'']\<close>
    by (simp add: re_match_def pat_defs cls_defs span_text_def)
  show ?thesis using combined_grammar_first[OF m] m by (simp add: timestamp_sample int_sample)
qed

subsection \<open>The example line of the common format\<close>

text \<open>
  C2. Parsing the line
  \<^verbatim>\<open>192.168.1.1 - - [19/Apr/2023:13:55:36 +0000] "GET /index.html HTTP/1.1" 200 2326\<close>
  succeeds and yields the record with client address \<^verbatim>\<open>192.168.1.1\<close>, method \<^verbatim>\<open>GET\<close>, path
  \<^verbatim>\<open>/index.html\<close>, status code 200, response size 2326, no referer and no user agent (and
  the timestamp 19 April 2023, 13:55:36).
\<close>

theorem parse_common_example:
  \<open>parse_log_line
      ''192.168.1.1 - - [19/Apr/2023:13:55:36 +0000] "GET /index.html HTTP/1.1" 200 2326''
   = Some \<lparr>raw_log =
             ''192.168.1.1 - - [19/Apr/2023:13:55:36 +0000] "GET /index.html HTTP/1.1" 200 2326'',
           timestamp = mk_datetime (2023, 4, 19, 13, 55, 36), ip_address = ''192.168.1.1'',
           method = ''GET'', path = ''/index.html'', status_code = 200, response_size = 2326,
           user_agent = None, referer = None\<rparr>\<close>
  using common_sample_line combined_sample_line
  by (simp add: parse_log_line_def sample_line_def timestamp_sample int_sample)

subsection \<open>Filters\<close>

text \<open>
  C3. Every filter (by address, method, status code, status code range, date range and path
  pattern) returns the records of the store that satisfy its predicate, in store order, and
  the analyzer object unchanged; whatever list a filter returns is a subsequence of the
  store. The path filter does so whenever the pattern compiles.
\<close>

theorem filters_pure_order_preserving:
  "filter_by_ip ip self = (Inr (filter (\<lambda>e. ip_address e = ip) (log_entries self)), self)
   \<and> filter_by_method m self
       = (Inr (filter (\<lambda>e. method e = str_upper m) (log_entries self)), self)
   \<and> filter_by_status_code c self
       = (Inr (filter (\<lambda>e. status_code e = c) (log_entries self)), self)
   \<and> filter_by_status_code_range lo hi self
       = (Inr (filter (\<lambda>e. lo \<le> status_code e \<and> status_code e \<le> hi) (log_entries self)), self)
   \<and> filter_by_date_range st en self
       = (Inr (filter (\<lambda>e. dt_le st (timestamp e) \<and> dt_le (timestamp e) en) (log_entries self)),
          self)
   \<and> (\<forall>regex. re_compile pat = Inr regex \<longrightarrow>
         filter_by_path_pattern re_compile re_search pat self
           = (Inr (filter (\<lambda>e. re_search regex (path e)) (log_entries self)), self))
   \<and> (\<forall>f \<in> {filter_by_ip ip, filter_by_method m, filter_by_status_code c,
               filter_by_status_code_range lo hi, filter_by_date_range st en,
               filter_by_path_pattern re_compile re_search pat}.
         snd (f self) = self \<and> (\<forall>r. fst (f self) = Inr r \<longrightarrow> subseq r (log_entries self)))"
  by (auto simp: filter_by_ip_def filter_by_method_def filter_by_status_code_def
      filter_by_status_code_range_def filter_by_date_range_def filter_by_path_pattern_def
      split: sum.splits)

text \<open>
  On a store of three records: the address filter and the path filter (with a library that
  rejects the pattern \<^verbatim>\<open>(\<close> and searches by equality).
\<close>

theorem filters_pure_order_preserving_witness:
  "filter_by_ip ''10.0.0.1'' store3
     = (Inr [sample_entry ''10.0.0.1'' ''/a'' 19 12 200, sample_entry ''10.0.0.1'' ''/c'' 20 12 500],
        store3)
   \<and> filter_by_path_pattern (\<lambda>p. if p = ''('' then Inl ReError else Inr p) (\<lambda>r s. r = s)
         ''/b'' store3
     = (Inr [sample_entry ''10.0.0.2'' ''/b'' 19 13 404], store3)
   \<and> subseq [sample_entry ''10.0.0.1'' ''/a'' 19 12 200, sample_entry ''10.0.0.1'' ''/c'' 20 12 500]
        (log_entries store3)"
  using filters_pure_order_preserving[where ip = "''10.0.0.1''" and self = store3
      and pat = "''/b''" and re_compile = "\<lambda>p. if p = ''('' then Inl ReError else Inr p"
      and re_search = "\<lambda>r s. r = s"]
  by (simp add: store3_def sample_entry_def)

subsection \<open>Hourly distribution\<close>

text \<open>
  C4. For every store the hourly distribution has exactly 24 entries, one for each hour from
  0 to 23 in this order; the entry of an hour holds the number of records of that hour (0
  when there is none), and the 24 counts add up to the number of records.
\<close>

theorem hourly_distribution_total:
  "get_hourly_distribution self =
      map (\<lambda>h. (h, length [entry \<leftarrow> log_entries self. hour (timestamp entry) = h])) [0..<24]
   \<and> length (get_hourly_distribution self) = 24
   \<and> map fst (get_hourly_distribution self) = [0..<24]
   \<and> sum_list (map snd (get_hourly_distribution self)) = length (log_entries self)"
proof -
  let ?hs = "map (\<lambda>entry. hour (timestamp entry)) (log_entries self)"
  have d: "get_hourly_distribution self = map (\<lambda>h. (h, count_list ?hs h)) [0..<24]"
    by (simp add: get_hourly_distribution_def counter_get_Counter)
  have c: "count_list ?hs h = length [entry \<leftarrow> log_entries self. hour (timestamp entry) = h]"
    for h
    by (induction "log_entries self" arbitrary: self)
       (simp_all add: count_list_eq_length_filter filter_map comp_def eq_commute)
  have s: "sum_list (map (count_list ?hs) [0..<24]) = length ?hs"
    by (rule sum_counts_upt) (simp add: hour_less_24)
  have "map snd (get_hourly_distribution self) = map (count_list ?hs) [0..<24]"
    unfolding d by (simp add: comp_def)
  then have "sum_list (map snd (get_hourly_distribution self)) = length (log_entries self)"
    using s by simp
  moreover have "map fst (get_hourly_distribution self) = [0..<24]"
    unfolding d by (simp add: comp_def)
  moreover have "length (get_hourly_distribution self) = 24" unfolding d by simp
  ultimately show ?thesis using d c by simp
qed

text \<open>A store whose records fall into the hours 12 and 13 only.\<close>

theorem hourly_distribution_total_witness:
  "get_hourly_distribution store3
     = [(0, 0), (1, 0), (2, 0), (3, 0), (4, 0), (5, 0), (6, 0), (7, 0), (8, 0), (9, 0), (10, 0),
        (11, 0), (12, 2), (13, 1), (14, 0), (15, 0), (16, 0), (17, 0), (18, 0), (19, 0), (20, 0),
        (21, 0), (22, 0), (23, 0)]
   \<and> sum_list (map snd (get_hourly_distribution store3)) = 3"
proof -
  have u: "[0..<24] = [0, 1, 2, 3, 4, 5, 6, 7, 8, 9, 10, 11, 12, 13, 14, 15, 16, 17, 18, 19, 20,
      21, 22, 23 :: nat]"
    by (simp add: upt_rec)
  show ?thesis using hourly_distribution_total[of store3]
    by (simp add: u store3_def sample_entry_def hour_def sample_fields)
qed

subsection \<open>Rankings\<close>

text \<open>
  C5. The rankings by address and by path. For a limit of 0 the result is empty. For a limit
  of at least the number of records the result holds every distinct key once, with the
  number of its records. For every limit \<open>n\<close> the result is the ranking of the first \<open>n\<close> keys
  (\<open>top_n_of\<close>): its items are distinct keys of the store with the number of their records,
  as many as there are distinct keys but at most \<open>n\<close>; an item stands before the items of
  smaller count and, among items of equal count, before those whose key is first met later
  in the store; and a key that is left out ranks behind every item of the result, so that at
  a tie the key met first is the one kept. No other list has these properties, and the result
  is the list of the first \<open>n\<close> items of the result for the number of records as limit.
\<close>

theorem top_n_ranking:
  "get_top_ips 0 self = [] \<and> get_top_paths 0 self = []
   \<and> (int (length (log_entries self)) \<le> n \<longrightarrow>
        set (get_top_ips n self)
          = {(k, count_list (map ip_address (log_entries self)) k) | k.
               k \<in> set (map ip_address (log_entries self))}
        \<and> distinct (map fst (get_top_ips n self))
        \<and> set (get_top_paths n self)
          = {(k, count_list (map path (log_entries self)) k) | k.
               k \<in> set (map path (log_entries self))}
        \<and> distinct (map fst (get_top_paths n self)))
   \<and> ranked (map ip_address (log_entries self)) (get_top_ips n self)
   \<and> ranked (map path (log_entries self)) (get_top_paths n self)
   \<and> top_n_of (map ip_address (log_entries self)) n (get_top_ips n self)
   \<and> top_n_of (map path (log_entries self)) n (get_top_paths n self)
   \<and> (\<forall>r. top_n_of (map ip_address (log_entries self)) n r \<longrightarrow> r = get_top_ips n self)
   \<and> (\<forall>r. top_n_of (map path (log_entries self)) n r \<longrightarrow> r = get_top_paths n self)
   \<and> get_top_ips n self = take (nat n) (get_top_ips (int (length (log_entries self))) self)
   \<and> get_top_paths n self = take (nat n) (get_top_paths (int (length (log_entries self))) self)"
proof -
  let ?ips = "map ip_address (log_entries self)"
  let ?paths = "map path (log_entries self)"
  have z: "get_top_ips 0 self = []" "get_top_paths 0 self = []"
    by (simp_all add: get_top_ips_def get_top_paths_def most_common_zero)
  have a: "int (length (log_entries self)) \<le> n \<longrightarrow>
        set (get_top_ips n self) = {(k, count_list ?ips k) | k. k \<in> set ?ips}
        \<and> distinct (map fst (get_top_ips n self))
        \<and> set (get_top_paths n self) = {(k, count_list ?paths k) | k. k \<in> set ?paths}
        \<and> distinct (map fst (get_top_paths n self))"
    unfolding get_top_ips_def get_top_paths_def
    using most_common_all(1,2)[of ?ips n] most_common_all(1,2)[of ?paths n]
    by simp
  have r: "ranked ?ips (get_top_ips n self)" "ranked ?paths (get_top_paths n self)"
    by (simp_all add: get_top_ips_def get_top_paths_def most_common_ranked)
  have t: "top_n_of ?ips n (get_top_ips n self)" "top_n_of ?paths n (get_top_paths n self)"
    by (simp_all add: get_top_ips_def get_top_paths_def most_common_top_n)
  have u: "\<forall>r. top_n_of ?ips n r \<longrightarrow> r = get_top_ips n self"
    "\<forall>r. top_n_of ?paths n r \<longrightarrow> r = get_top_paths n self"
    using t top_n_of_unique by blast+
  have k: "get_top_ips n self = take (nat n) (get_top_ips (int (length (log_entries self))) self)"
    "get_top_paths n self = take (nat n) (get_top_paths (int (length (log_entries self))) self)"
    unfolding get_top_ips_def get_top_paths_def
    using most_common_take[of n ?ips] most_common_take[of n ?paths] by simp_all
  show ?thesis
    by (intro conjI) (rule z a r t u k)+
qed

text \<open>
  On a store of three records, two of one address, with three paths that occur once each: the
  limit 1 returns the address with two records, and of the three paths the one met first;
  the limit 2 returns the two paths met first; the limit 3 returns both addresses with their
  counts.
\<close>

theorem top_n_ranking_witness:
  "get_top_ips 0 store3 = []
   \<and> get_top_ips 1 store3 = [(''10.0.0.1'', 2)]
   \<and> get_top_paths 1 store3 = [(''/a'', 1)]
   \<and> get_top_paths 2 store3 = [(''/a'', 1), (''/b'', 1)]
   \<and> get_top_ips 3 store3 = [(''10.0.0.1'', 2), (''10.0.0.2'', 1)]
   \<and> set (get_top_ips 3 store3)
        = {(k, count_list (map ip_address (log_entries store3)) k) | k.
             k \<in> set (map ip_address (log_entries store3))}
   \<and> top_n_of (map path (log_entries store3)) 1 [(''/a'', 1)]
   \<and> ranked (map path (log_entries store3)) (get_top_paths 2 store3)"
proof -
  have len: "int (length (log_entries store3)) \<le> 3" by (simp add: store3_def)
  have ips: "map ip_address (log_entries store3) = [''10.0.0.1'', ''10.0.0.2'', ''10.0.0.1'']"
    by (simp add: store3_def sample_entry_def)
  have paths: "map path (log_entries store3) = [''/a'', ''/b'', ''/c'']"
    by (simp add: store3_def sample_entry_def)
  have z: "get_top_ips 0 store3 = []"
    using top_n_ranking[of store3 3] by (elim conjE)
  have a: "set (get_top_ips 3 store3)
        = {(k, count_list (map ip_address (log_entries store3)) k) | k.
             k \<in> set (map ip_address (log_entries store3))}"
    using top_n_ranking[of store3 3] by (elim conjE) (rule conjunct1[OF mp[OF _ len]])
  have r: "ranked (map path (log_entries store3)) (get_top_paths 2 store3)"
    using top_n_ranking[of store3 2] by (elim conjE)
  have e0: "get_top_ips 1 store3 = [(''10.0.0.1'', 2)]"
    by (simp add: get_top_ips_def most_common_def Counter_def ips)
  have e1: "get_top_paths 1 store3 = [(''/a'', 1)]"
    by (simp add: get_top_paths_def most_common_def Counter_def paths)
  have e2: "get_top_paths 2 store3 = [(''/a'', 1), (''/b'', 1)]"
    by (simp add: get_top_paths_def most_common_def Counter_def paths)
  have e3: "get_top_ips 3 store3 = [(''10.0.0.1'', 2), (''10.0.0.2'', 1)]"
    by (simp add: get_top_ips_def most_common_def Counter_def ips)
  have "top_n_of (map path (log_entries store3)) 1 (get_top_paths 1 store3)"
    using top_n_ranking[of store3 1] by (elim conjE)
  then have t: "top_n_of (map path (log_entries store3)) 1 [(''/a'', 1)]"
    by (simp only: e1)
  show ?thesis by (intro conjI) (rule z e0 e1 e2 e3 a t r)+
qed

subsection \<open>Excessive 404 responses\<close>

text \<open>
  C6. For every store and every client address: the records of the address in the category
  \<^verbatim>\<open>excessive_404s\<close> are all of its 404 records when it has more than 10 of them, and none
  otherwise; so the address occurs in the category exactly when its number of 404 records
  exceeds 10. The category is absent from the result exactly when no address has more than 10.
\<close>

theorem excessive_404_detection:
  "filter (\<lambda>e. ip_address e = ip) (excessive_404s self)
         = (if 10 < length (records_404 self ip) then records_404 self ip else [])
   \<and> ((\<exists>e \<in> set (excessive_404s self). ip_address e = ip)
        \<longleftrightarrow> 10 < length (records_404 self ip))
   \<and> (detect_potential_attacks self ''excessive_404s'' = None
        \<longleftrightarrow> (\<forall>a. length (records_404 self a) \<le> 10))"
proof (intro conjI)
  show per: "filter (\<lambda>e. ip_address e = ip) (excessive_404s self)
         = (if 10 < length (records_404 self ip) then records_404 self ip else [])"
    by (rule excessive_per_ip)
  have "(\<exists>e \<in> set (excessive_404s self). ip_address e = ip)
      \<longleftrightarrow> filter (\<lambda>e. ip_address e = ip) (excessive_404s self) \<noteq> []"
    by (simp add: filter_empty_conv)
  also have "\<dots> \<longleftrightarrow> 10 < length (records_404 self ip)"
    unfolding per by auto
  finally show "(\<exists>e \<in> set (excessive_404s self). ip_address e = ip)
            \<longleftrightarrow> 10 < length (records_404 self ip)" .
next
  let ?fl = "filter (\<lambda>(ip, count). 10 < count) (ip_404_counts (log_entries self))"
  have "?fl = [] \<longleftrightarrow> (\<forall>a. \<not> (\<exists>c. (a, c) \<in> set ?fl))"
    by (cases ?fl) (auto simp del: set_filter filter.simps)
  also have "\<dots> \<longleftrightarrow> (\<forall>a. length (records_404 self a) \<le> 10)"
    by (simp only: flagged_keys not_less)
  finally show "detect_potential_attacks self ''excessive_404s'' = None
        \<longleftrightarrow> (\<forall>a. length (records_404 self a) \<le> 10)"
    by (simp only: key_absent_iff)
qed

text \<open>
  An address with exactly 11 records of status 404 contributes all 11; an address with
  exactly 10 contributes none.
\<close>

theorem excessive_404_detection_witness:
  "filter (\<lambda>e. ip_address e = ''10.0.0.9'') (excessive_404s store404)
      = replicate 11 (sample_entry ''10.0.0.9'' ''/missing'' 19 12 404)
   \<and> filter (\<lambda>e. ip_address e = ''10.0.0.1'') (excessive_404s store404) = []
   \<and> detect_potential_attacks store404 ''excessive_404s'' \<noteq> None"
proof -
  have a: "records_404 store404 ''10.0.0.9''
      = replicate 11 (sample_entry ''10.0.0.9'' ''/missing'' 19 12 404)"
    by (simp add: records_404_def store404_def sample_entry_def)
  have b: "records_404 store404 ''10.0.0.1''
      = replicate 10 (sample_entry ''10.0.0.1'' ''/gone'' 19 12 404)"
    by (simp add: records_404_def store404_def sample_entry_def)
  have "\<not> (\<forall>a. length (records_404 store404 a) \<le> 10)"
    using a by (auto intro!: exI[of _ "''10.0.0.9''"])
  then show ?thesis
    using excessive_404_detection[of "''10.0.0.9''" store404]
      excessive_404_detection[of "''10.0.0.1''" store404]
    by (simp add: a b)
qed

subsection \<open>Bandwidth of an empty store\<close>

text \<open>
  C7. On an empty record store \<^verbatim>\<open>get_total_bandwidth\<close> returns the integer 0 and
  \<^verbatim>\<open>get_average_response_size\<close> returns the integer 0: a value, neither an exception nor a
  float that is not a number.
\<close>

theorem empty_store_bandwidth:
  "get_total_bandwidth \<lparr>log_entries = []\<rparr> = 0
   \<and> get_average_response_size \<lparr>log_entries = []\<rparr> = PyInt 0"
  by (simp add: get_total_bandwidth_def get_average_response_size_def)

subsection \<open>A date range whose start lies after its end\<close>

text \<open>
  C8, as stated: the date-range filter, called with a start after the end, fails. It does
  not: with the start 20 April and the end 19 April the call returns a list.
\<close>

theorem date_range_invalid_order_no_failure:
  "\<not> (\<forall>st en self. dt_less en st \<longrightarrow> isl (fst (filter_by_date_range st en self)))"
proof
  assume a: "\<forall>st en self. dt_less en st \<longrightarrow> isl (fst (filter_by_date_range st en self))"
  have "isl (fst (filter_by_date_range (mk_datetime (2023, 4, 20, 0, 0, 0))
       (mk_datetime (2023, 4, 19, 0, 0, 0)) store3))"
    using a april_19_before_20 by blast
  then show False by (simp add: filter_by_date_range_def)
qed

text \<open>
  C8, amended. The date-range filter called with a start strictly after the end does not
  fail: it returns the empty list, and the analyzer object unchanged.
\<close>

theorem date_range_invalid_order_empty:
  assumes "dt_less en st"
  shows "filter_by_date_range st en self = (Inr [], self)"
proof -
  have "\<not> (dt_le st t \<and> dt_le t en)" for t
  proof
    assume "dt_le st t \<and> dt_le t en"
    then have "dt_le st en" using dt_le_trans by blast
    moreover have "dt_le en st" "en \<noteq> st" using assms by (simp_all add: dt_less_def)
    ultimately show False using dt_le_antisym by blast
  qed
  then show ?thesis by (simp add: filter_by_date_range_def)
qed

theorem date_range_invalid_order_empty_witness:
  "dt_less (mk_datetime (2023, 4, 19, 0, 0, 0)) (mk_datetime (2023, 4, 20, 0, 0, 0))
   \<and> filter_by_date_range (mk_datetime (2023, 4, 20, 0, 0, 0))
        (mk_datetime (2023, 4, 19, 0, 0, 0)) store3
       = (Inr [], store3)"
  using date_range_invalid_order_empty[OF april_19_before_20, of store3] april_19_before_20
  by simp

subsection \<open>Daily distribution\<close>

text \<open>
  C9, as stated: the output of the daily distribution is sorted by date ascending. It is not:
  for a store whose first record is of 20 April and whose second is of 19 April the keys
  come in this order.
\<close>

theorem daily_distribution_not_sorted:
  "\<not> sorted (map fst (get_daily_distribution store_desc))"
  by (simp add: get_daily_distribution_def Counter_def store_desc_def sample_entry_def
      date_isoformat_def year_def month_def day_def sample_fields digit_char_def)

text \<open>
  C9, amended. The daily distribution maps each date present in the data, and only those, to
  the number of its records; its keys are distinct and stand in the order in which the dates
  are first met in the store. The rows that the display prints are the same items, sorted by
  date ascending.
\<close>

theorem daily_distribution_counts:
  "map_of (get_daily_distribution self) d =
      (if d \<in> set (dates_of self) then Some (count_list (dates_of self) d) else None)
   \<and> distinct (map fst (get_daily_distribution self))
   \<and> sorted_wrt (\<lambda>a b. first_pos (dates_of self) a < first_pos (dates_of self) b)
        (map fst (get_daily_distribution self))
   \<and> set (display_daily_rows self) = set (get_daily_distribution self)
   \<and> sorted (map fst (display_daily_rows self))"
proof -
  have g: "get_daily_distribution self = Counter (dates_of self)"
    by (simp add: get_daily_distribution_def dates_of_def)
  have "sorted (display_daily_rows self)" by (simp add: display_daily_rows_def)
  then have "sorted_wrt (\<lambda>x y. fst x \<le> fst y) (display_daily_rows self)"
    by (rule sorted_wrt_mono_rel[rotated]) (auto simp: less_eq_prod_def)
  then have "sorted (map fst (display_daily_rows self))"
    by (simp add: sorted_map)
  then show ?thesis
    by (simp add: g map_of_Counter Counter_keys_distinct Counter_first_order
        display_daily_rows_def)
qed

theorem daily_distribution_counts_witness:
  "get_daily_distribution store3 = [(''2023-04-19'', 2), (''2023-04-20'', 1)]
   \<and> map_of (get_daily_distribution store3) ''2023-04-20''
       = (if ''2023-04-20'' \<in> set (dates_of store3)
          then Some (count_list (dates_of store3) ''2023-04-20'') else None)
   \<and> sorted (map fst (display_daily_rows store3))"
proof -
  have d: "dates_of store3 = [''2023-04-19'', ''2023-04-19'', ''2023-04-20'']"
    by (simp add: dates_of_def store3_def sample_entry_def date_isoformat_def
        year_def month_def day_def sample_fields digit_char_def)
  have g: "get_daily_distribution store3 = [(''2023-04-19'', 2), (''2023-04-20'', 1)]"
    using d by (simp add: get_daily_distribution_def dates_of_def Counter_def)
  show ?thesis using daily_distribution_counts[of store3 "''2023-04-20''"] g by simp
qed

subsection \<open>Text behind the match\<close>



text \<open>
  What the hypotheses exclude. A digit behind the example line is read as one more digit of the
  response size. A line whose timestamp is not a date is matched by the common pattern and
  rejected, with or without text behind it. Text that does not begin with a digit is
  discarded, whether it is an unclosed quoted field or anything else, and the match ends
  where the example line ends.
\<close>

lemma trailing_text_examples:
  \<open>parse_log_line (sample_line @ '' "unfinished'')
     = map_option (raw_log_update (\<lambda>_. sample_line @ '' "unfinished'')) (parse_log_line sample_line)
   \<and> parse_log_line (sample_line @ '' and then some junk'')
     = map_option (raw_log_update (\<lambda>_. sample_line @ '' and then some junk''))
         (parse_log_line sample_line)
   \<and> re_match_end COMMON_LOG_PATTERN (sample_line @ '' and then some junk'')
     = Some (length sample_line)
   \<and> parse_log_line sample_line \<noteq> None
   \<and> map_option response_size (parse_log_line (sample_line @ ''7'')) = Some 23267
   \<and> re_match COMMON_LOG_PATTERN ''1.1.1.1 - - [bad] "GET / HTTP/1.1" 200 5 junk''
       = Some [''1.1.1.1'', ''bad'', ''GET'', ''/'', ''200'', ''5'']
   \<and> parse_log_line ''1.1.1.1 - - [bad] "GET / HTTP/1.1" 200 5 junk'' = None
   \<and> parse_log_line ''1.1.1.1 - - [bad] "GET / HTTP/1.1" 200 5'' = None\<close>
proof -
  have p: "parse_log_line sample_line = entry_of_common sample_line
      [''192.168.1.1'', ''19/Apr/2023:13:55:36 +0000'', ''GET'', ''/index.html'', ''200'', ''2326'']"
    using common_sample_line combined_sample_line by (simp add: parse_log_line_def)
  have a: \<open>re_match COMBINED_LOG_PATTERN (sample_line @ '' "unfinished'') = None\<close>
    \<open>re_match COMMON_LOG_PATTERN (sample_line @ '' "unfinished'')
     = Some [''192.168.1.1'', ''19/Apr/2023:13:55:36 +0000'', ''GET'', ''/index.html'', ''200'',
             ''2326'']\<close>
    by (simp_all add: re_match_def pat_defs cls_defs sample_line_def span_text_def)
  have b: \<open>re_match COMBINED_LOG_PATTERN (sample_line @ '' and then some junk'') = None\<close>
    \<open>re_match COMMON_LOG_PATTERN (sample_line @ '' and then some junk'')
     = Some [''192.168.1.1'', ''19/Apr/2023:13:55:36 +0000'', ''GET'', ''/index.html'', ''200'',
             ''2326'']\<close>
    by (simp_all add: re_match_def pat_defs cls_defs sample_line_def span_text_def)
  have c: \<open>parse_log_line (sample_line @ '' "unfinished'')
     = map_option (raw_log_update (\<lambda>_. sample_line @ '' "unfinished''))
         (parse_log_line sample_line)\<close>
    unfolding p using a by (simp add: parse_log_line_def timestamp_sample int_sample)
  have d: \<open>parse_log_line (sample_line @ '' and then some junk'')
     = map_option (raw_log_update (\<lambda>_. sample_line @ '' and then some junk''))
         (parse_log_line sample_line)\<close>
    unfolding p using b by (simp add: parse_log_line_def timestamp_sample int_sample)
  have e: \<open>re_match_end COMMON_LOG_PATTERN (sample_line @ '' and then some junk'')
     = Some (length sample_line)\<close>
    by (simp add: re_match_end_def pat_defs cls_defs sample_line_def)
  have f: "parse_log_line sample_line \<noteq> None"
    unfolding p by (simp add: timestamp_sample int_sample)
  have g1: \<open>re_match COMBINED_LOG_PATTERN (sample_line @ ''7'') = None\<close>
    \<open>re_match COMMON_LOG_PATTERN (sample_line @ ''7'')
     = Some [''192.168.1.1'', ''19/Apr/2023:13:55:36 +0000'', ''GET'', ''/index.html'', ''200'',
             ''23267'']\<close>
    by (simp_all add: re_match_def pat_defs cls_defs sample_line_def span_text_def)
  have g2: "py_int ''23267'' = Inr 23267"
    by (simp add: py_int_def cls_defs digit_val_def int_max_str_digits_def)
  have g: \<open>map_option response_size (parse_log_line (sample_line @ ''7'')) = Some 23267\<close>
    using g1 g2 by (simp add: parse_log_line_def timestamp_sample int_sample)
  have h1: \<open>re_match COMBINED_LOG_PATTERN ''1.1.1.1 - - [bad] "GET / HTTP/1.1" 200 5 junk'' = None\<close>
    \<open>re_match COMMON_LOG_PATTERN ''1.1.1.1 - - [bad] "GET / HTTP/1.1" 200 5 junk''
     = Some [''1.1.1.1'', ''bad'', ''GET'', ''/'', ''200'', ''5'']\<close>
    \<open>re_match COMBINED_LOG_PATTERN ''1.1.1.1 - - [bad] "GET / HTTP/1.1" 200 5'' = None\<close>
    \<open>re_match COMMON_LOG_PATTERN ''1.1.1.1 - - [bad] "GET / HTTP/1.1" 200 5''
     = Some [''1.1.1.1'', ''bad'', ''GET'', ''/'', ''200'', ''5'']\<close>
    by (simp_all add: re_match_def pat_defs cls_defs span_text_def)
  have h2: "parse_timestamp ''bad'' = Inl ValueError"
    by (simp add: strptime_defs cls_defs)
  have h: \<open>parse_log_line ''1.1.1.1 - - [bad] "GET / HTTP/1.1" 200 5 junk'' = None\<close>
    \<open>parse_log_line ''1.1.1.1 - - [bad] "GET / HTTP/1.1" 200 5'' = None\<close>
    using h1 h2 by (simp_all add: parse_log_line_def)
  show ?thesis using c d e f g h h1(2) by simp
qed

end
